theory Spec2Isabelle
  imports Main "HOL-Library.Word" "HOL-Library.List_Lexorder" "HOL-Library.AList"
begin

section \<open>Byte strings\<close>

text \<open>
  A Go \<open>[]byte\<close> is a list of 8-bit words. Where the source gives a meaning to the nil
  slice (an absent value, an open-ended bound) the slice is a \<open>bytes option\<close> and
  \<open>None\<close> is nil.
\<close>

type_synonym byte = "8 word"
type_synonym bytes = "byte list"

text \<open>
  \<open>bytes.Compare\<close> of the Go standard library: the lexicographic comparison of two byte
  strings, bytes compared unsigned, a proper prefix below its extensions; the result is
  -1, 0 or 1.
\<close>

fun bytes_Compare :: "bytes \<Rightarrow> bytes \<Rightarrow> int" where
  "bytes_Compare [] [] = 0"
| "bytes_Compare [] (y # ys) = - 1"
| "bytes_Compare (x # xs) [] = 1"
| "bytes_Compare (x # xs) (y # ys) =
     (if x < y then - 1 else if y < x then 1 else bytes_Compare xs ys)"

text \<open>
  \<open>sort.Sort\<close> of the Go standard library, for a \<open>Less\<close> given as a function of two
  elements: the elements in ascending order of \<open>Less\<close>. The library's algorithm is not
  stable; the model inserts one element after the other. On a total order whose equal
  elements are identical (as \<open>bytes.Compare\<close> is on byte strings) every sorting
  algorithm returns the same list.
\<close>

fun insert_Less :: "('a \<Rightarrow> 'a \<Rightarrow> bool) \<Rightarrow> 'a \<Rightarrow> 'a list \<Rightarrow> 'a list" where
  "insert_Less lt x [] = [x]"
| "insert_Less lt x (y # ys) =
     (if lt y x then y # insert_Less lt x ys else x # y # ys)"

definition sort_Sort :: "('a \<Rightarrow> 'a \<Rightarrow> bool) \<Rightarrow> 'a list \<Rightarrow> 'a list" where
  "sort_Sort lt xs = foldr (insert_Less lt) xs []"

section \<open>KVCache: the overlay store\<close>

text \<open>
  \<open>valueInfo\<close> is the struct of the source; its zero value (what a Go map returns for a
  missing key) has a nil value and is not deleted.
\<close>

record valueInfo =
  vi_value :: "bytes option"
  vi_deleted :: bool

definition zero_valueInfo :: valueInfo where
  "zero_valueInfo = \<lparr>vi_value = None, vi_deleted = False\<rparr>"

text \<open>
  A key is a \<open>[]byte\<close> and may be nil. \<open>string(key)\<close> is the byte string of the key, the
  empty string for a nil and for an empty slice; \<open>bytes.Compare\<close> reads a nil slice in the
  same way.
\<close>

definition string_of :: "bytes option \<Rightarrow> bytes" where
  "string_of key = (case key of None \<Rightarrow> [] | Some k \<Rightarrow> k)"

text \<open>
  \<open>KVCache\<close>: the map from \<open>string(key)\<close> to \<open>valueInfo\<close>, and the slice of keys, which
  holds each key as it was passed to the first \<open>Set\<close> or \<open>Delete\<close> of its string. The
  reader/writer lock is left out: every operation below runs alone.
\<close>

record KVCache =
  kv_cache :: "bytes \<rightharpoonup> valueInfo"
  kv_keys :: "bytes option list"

definition NewKVCache :: KVCache where
  "NewKVCache = \<lparr>kv_cache = Map.empty, kv_keys = []\<rparr>"

text \<open>\<open>vi, ok := kvc.cache[skey]\<close>: the entry, or the zero value and \<open>False\<close>.\<close>

definition cache_lookup :: "KVCache \<Rightarrow> bytes \<Rightarrow> valueInfo \<times> bool" where
  "cache_lookup kvc skey =
     (case kv_cache kvc skey of None \<Rightarrow> (zero_valueInfo, False) | Some vi \<Rightarrow> (vi, True))"

definition Info :: "KVCache \<Rightarrow> bytes option \<Rightarrow> bytes option \<times> bool" where
  "Info kvc key =
     (let vi = fst (cache_lookup kvc (string_of key)) in (vi_value vi, vi_deleted vi))"

definition Get :: "KVCache \<Rightarrow> bytes option \<Rightarrow> bytes option" where
  "Get kvc key = vi_value (fst (cache_lookup kvc (string_of key)))"

definition Has :: "KVCache \<Rightarrow> bytes option \<Rightarrow> bool" where
  "Has kvc key = (let (vi, ok) = cache_lookup kvc (string_of key) in ok \<and> \<not> vi_deleted vi)"

definition Set_kv :: "KVCache \<Rightarrow> bytes option \<Rightarrow> bytes option \<Rightarrow> KVCache" where
  "Set_kv kvc key val =
     (let skey = string_of key;
          (vi, ok) = cache_lookup kvc skey;
          ks = (if \<not> ok then kv_keys kvc @ [key] else kv_keys kvc);
          vi1 = vi\<lparr>vi_deleted := False\<rparr>;
          vi2 = vi1\<lparr>vi_value := val\<rparr>
      in kvc\<lparr>kv_cache := (kv_cache kvc)(skey \<mapsto> vi2), kv_keys := ks\<rparr>)"

definition Delete :: "KVCache \<Rightarrow> bytes option \<Rightarrow> KVCache" where
  "Delete kvc key =
     (let skey = string_of key;
          (vi, ok) = cache_lookup kvc skey;
          ks = (if \<not> ok then kv_keys kvc @ [key] else kv_keys kvc);
          vi1 = vi\<lparr>vi_deleted := True\<rparr>;
          vi2 = vi1\<lparr>vi_value := None\<rparr>
      in kvc\<lparr>kv_cache := (kv_cache kvc)(skey \<mapsto> vi2), kv_keys := ks\<rparr>)"

text \<open>\<open>Reset\<close> assigns a new empty map to \<open>kvc.cache\<close>; it assigns nothing else.\<close>

definition Reset :: "KVCache \<Rightarrow> KVCache" where
  "Reset kvc = kvc\<lparr>kv_cache := Map.empty\<rparr>"

text \<open>
  \<open>byteSlices.Less\<close>, as a function of the two elements at the indices: \<open>bytes.Compare\<close> of
  the two keys, a nil key read as the empty one.
\<close>

definition byteSlices_Less :: "bytes option \<Rightarrow> bytes option \<Rightarrow> bool" where
  "byteSlices_Less a b = (bytes_Compare (string_of a) (string_of b) = - 1)"

text \<open>
  Modelled from the spec: \<open>storage.NormaliseDomain\<close> and \<open>storage.CompareKeys\<close> are called
  by the cache and are not among the source files. The spec: NormaliseDomain "coerces nil
  low to empty and nil high to an open-ended sentinel". So for \<open>CompareKeys\<close> a nil slice
  stands above every byte string, on either side, and two non-nil byte strings compare as
  \<open>bytes.Compare\<close> does.
\<close>

definition NormaliseDomain :: "bytes option \<Rightarrow> bytes option \<Rightarrow> bytes option \<times> bytes option" where
  "NormaliseDomain low high = ((case low of None \<Rightarrow> Some [] | Some l \<Rightarrow> Some l), high)"

fun CompareKeys :: "bytes option \<Rightarrow> bytes option \<Rightarrow> int" where
  "CompareKeys None None = 0"
| "CompareKeys None (Some k2) = 1"
| "CompareKeys (Some k1) None = - 1"
| "CompareKeys (Some k1) (Some k2) = bytes_Compare k1 k2"

text \<open>
  The two loops of \<open>sortedKeysInDomain\<close> look for the index of the first key that
  satisfies a test and leave the loop there; \<open>seek\<close> is that index, and the length of the
  list when no key satisfies the test.
\<close>

fun seek :: "('a \<Rightarrow> bool) \<Rightarrow> 'a list \<Rightarrow> nat" where
  "seek P [] = 0"
| "seek P (x # xs) = (if P x then 0 else Suc (seek P xs))"

text \<open>
  \<open>sortedKeysInDomain\<close> sorts \<open>kvc.keys\<close> in place, so it returns the cache as well. Each
  stored key goes to \<open>CompareKeys\<close> as it is stored, nil or not.
\<close>

definition sortedKeysInDomain :: "KVCache \<Rightarrow> bytes option \<Rightarrow> bytes option
    \<Rightarrow> bytes option list \<times> KVCache" where
  "sortedKeysInDomain kvc low high =
     (let ks = sort_Sort byteSlices_Less (kv_keys kvc);
          startIndex = seek (\<lambda>key. CompareKeys key low \<noteq> - 1) ks;
          sortedKeys = drop startIndex ks;
          sortedKeys2 = take (seek (\<lambda>key. CompareKeys key high \<noteq> - 1) sortedKeys) sortedKeys
      in (sortedKeys2, kvc\<lparr>kv_keys := ks\<rparr>))"

record KVCacheIterator =
  it_cache :: "bytes \<rightharpoonup> valueInfo"
  it_start :: "bytes option"
  it_end :: "bytes option"
  it_keys :: "bytes option list"
  it_keyIndex :: nat
  it_reverse :: bool

definition newIterator :: "KVCache \<Rightarrow> bytes option \<Rightarrow> bytes option \<Rightarrow> bool \<Rightarrow> KVCacheIterator \<times> KVCache" where
  "newIterator kvc start endk reverse =
     (let (ks, kvc2) = sortedKeysInDomain kvc start endk
      in (\<lparr>it_cache = kv_cache kvc2, it_start = start, it_end = endk, it_keys = ks,
            it_keyIndex = 0, it_reverse = reverse\<rparr>, kvc2))"

definition Iterator :: "KVCache \<Rightarrow> bytes option \<Rightarrow> bytes option \<Rightarrow> KVCacheIterator \<times> KVCache" where
  "Iterator kvc low high =
     (let (low2, high2) = NormaliseDomain low high in newIterator kvc low2 high2 False)"

definition ReverseIterator :: "KVCache \<Rightarrow> bytes option \<Rightarrow> bytes option \<Rightarrow> KVCacheIterator \<times> KVCache" where
  "ReverseIterator kvc low high =
     (let (low2, high2) = NormaliseDomain low high in newIterator kvc low2 high2 True)"

definition Valid :: "KVCacheIterator \<Rightarrow> bool" where
  "Valid kvi = (it_keyIndex kvi < length (it_keys kvi))"

text \<open>
  \<open>sliceIndex\<close> is an \<open>int\<close> in the source; on a valid iterator it is an index of the
  slice. Indexing out of range panics in Go: \<open>Key\<close> returns \<open>None\<close> there, and else the key
  at the index (which may be the nil key).
\<close>

definition sliceIndex :: "KVCacheIterator \<Rightarrow> int" where
  "sliceIndex kvi =
     (if it_reverse kvi then int (length (it_keys kvi)) - 1 - int (it_keyIndex kvi)
      else int (it_keyIndex kvi))"

definition Key :: "KVCacheIterator \<Rightarrow> bytes option option" where
  "Key kvi =
     (let i = sliceIndex kvi
      in if 0 \<le> i \<and> i < int (length (it_keys kvi)) then Some (it_keys kvi ! nat i) else None)"

text \<open>\<open>Next\<close> panics on an iterator that is not valid: \<open>None\<close>.\<close>

definition Next :: "KVCacheIterator \<Rightarrow> KVCacheIterator option" where
  "Next kvi = (if \<not> Valid kvi then None else Some (kvi\<lparr>it_keyIndex := it_keyIndex kvi + 1\<rparr>))"

text \<open>
  What an iterator yields: the keys a consumer reads with the loop
  \<open>for ; it.Valid(); it.Next() { ... it.Key() ... }\<close>. The result is \<open>None\<close> if a call
  panics.
\<close>

function yielded :: "KVCacheIterator \<Rightarrow> bytes option list option" where
  "yielded kvi =
     (if Valid kvi then
        (case Key kvi of
           None \<Rightarrow> None
         | Some k \<Rightarrow>
             (case Next kvi of
                None \<Rightarrow> None
              | Some kvi2 \<Rightarrow> (case yielded kvi2 of None \<Rightarrow> None | Some ks \<Rightarrow> Some (k # ks))))
      else Some [])"
  by pat_completeness auto
termination
  by (relation "measure (\<lambda>kvi. length (it_keys kvi) - it_keyIndex kvi)")
     (auto simp: Valid_def Next_def split: if_splits)

declare yielded.simps [simp del]

text \<open>A sequence of writes to the cache.\<close>

datatype kv_op = OpSet "bytes option" "bytes option" | OpDelete "bytes option"

fun op_key :: "kv_op \<Rightarrow> bytes option" where
  "op_key (OpSet k v) = k"
| "op_key (OpDelete k) = k"

fun apply_op :: "kv_op \<Rightarrow> KVCache \<Rightarrow> KVCache" where
  "apply_op (OpSet k v) kvc = Set_kv kvc k v"
| "apply_op (OpDelete k) kvc = Delete kvc k"

definition apply_ops :: "kv_op list \<Rightarrow> KVCache \<Rightarrow> KVCache" where
  "apply_ops ops kvc = fold apply_op ops kvc"

text \<open>
  A key lies in the half-open range \<open>[low, high)\<close> of byte strings when its byte string is
  not below \<open>low\<close> and is below \<open>high\<close> in the order of \<open>bytes.Compare\<close>; a nil bound is no
  bound.
\<close>

definition in_domain :: "bytes option \<Rightarrow> bytes option \<Rightarrow> bytes option \<Rightarrow> bool" where
  "in_domain low high key =
     ((case low of None \<Rightarrow> True | Some l \<Rightarrow> bytes_Compare l (string_of key) \<noteq> 1) \<and>
      (case high of None \<Rightarrow> True | Some h \<Rightarrow> bytes_Compare (string_of key) h = - 1))"

text \<open>The keys slice holds, for every key of the map, one key with that string.\<close>

definition kv_inv :: "KVCache \<Rightarrow> bool" where
  "kv_inv kvc =
     (distinct (map string_of (kv_keys kvc)) \<and> string_of ` set (kv_keys kvc) = dom (kv_cache kvc))"

section \<open>The proposal cache\<close>

text \<open>
  A \<open>ProposalHash\<close> is an array of 32 bytes (\<open>sha256.Size\<close>). \<open>copy(hash[:], proposalHash)\<close>
  on a zeroed array keeps the first 32 bytes of the slice and leaves zeros after a shorter
  one.
\<close>

definition hash_of :: "bytes \<Rightarrow> bytes" where
  "hash_of proposalHash = take 32 proposalHash @ replicate (32 - length proposalHash) 0"

text \<open>
  \<open>ProposalHashArray.Less\<close>, as a function of the two elements at the indices. It panics on
  a result of \<open>bytes.Compare\<close> outside -1, 0, 1: \<open>None\<close>.
\<close>

definition ProposalHashArray_Less :: "bytes \<Rightarrow> bytes \<Rightarrow> bool option" where
  "ProposalHashArray_Less a b =
     (let c = bytes_Compare a b
      in if c = - 1 then Some True else if c = 0 \<or> c = 1 then Some False else None)"


text \<open>
  \<open>proposalInfo\<close>: the ballot is a pointer and may be nil. The locks of the entry and of the
  cache are left out: every operation below runs alone.
\<close>

record 'b proposalInfo =
  pi_ballot :: "'b option"
  pi_removed :: bool
  pi_updated :: bool

text \<open>
  The errors of the cache: an error of the backend or of the writer, handed on as it is;
  the two errors the cache makes itself, with the hash they print; and the panic of a nil
  \<open>proposalInfo\<close>.
\<close>

datatype 'e cache_error =
    External 'e
  | UpdateOnRemoved bytes
  | RemoveOnRemoved bytes
  | NilProposalInfo

text \<open>
  \<open>Cache\<close>: the backend is a \<open>Reader\<close>, whose \<open>GetProposal\<close> returns a ballot (or nil) or an
  error. The map \<open>proposals\<close> is a list of pairs with one pair for each key; the order of
  the list stands for the order in which \<open>range\<close> enumerates the map, which Go leaves
  open. An entry is written through the pointer the map holds: the model writes the pair
  back.
\<close>

record ('b, 'e) Cache =
  backend :: "bytes \<Rightarrow> 'e + 'b option"
  proposals :: "(bytes \<times> 'b proposalInfo) list"

definition NewCache :: "(bytes \<Rightarrow> 'e + 'b option) \<Rightarrow> ('b, 'e) Cache" where
  "NewCache be = \<lparr>backend = be, proposals = []\<rparr>"

text \<open>\<open>get\<close>: the entry of the hash, read from the backend and stored if the map has none.\<close>

definition get :: "('b, 'e) Cache \<Rightarrow> bytes \<Rightarrow> ('e cache_error + 'b proposalInfo) \<times> ('b, 'e) Cache" where
  "get cache proposalHash =
     (let hash = hash_of proposalHash
      in case map_of (proposals cache) hash of
           Some propInfo \<Rightarrow> (Inr propInfo, cache)
         | None \<Rightarrow>
             (case backend cache proposalHash of
                Inl err \<Rightarrow> (Inl (External err), cache)
              | Inr prop \<Rightarrow>
                  (let propInfo = \<lparr>pi_ballot = prop, pi_removed = False, pi_updated = False\<rparr>
                   in (Inr propInfo,
                       cache\<lparr>proposals := AList.update hash propInfo (proposals cache)\<rparr>))))"

definition GetProposal :: "('b, 'e) Cache \<Rightarrow> bytes \<Rightarrow> ('b option \<times> 'e cache_error option) \<times> ('b, 'e) Cache" where
  "GetProposal cache proposalHash =
     (case get cache proposalHash of
        (Inl err, c) \<Rightarrow> ((None, Some err), c)
      | (Inr propInfo, c) \<Rightarrow>
          if pi_removed propInfo then ((None, None), c) else ((pi_ballot propInfo, None), c))"

definition UpdateProposal :: "('b, 'e) Cache \<Rightarrow> bytes \<Rightarrow> 'b option \<Rightarrow> 'e cache_error option \<times> ('b, 'e) Cache" where
  "UpdateProposal cache proposalHash ballot =
     (case get cache proposalHash of
        (Inl err, c) \<Rightarrow> (Some err, c)
      | (Inr propInfo, c) \<Rightarrow>
          if pi_removed propInfo then (Some (UpdateOnRemoved proposalHash), c)
          else (None, c\<lparr>proposals := AList.update (hash_of proposalHash)
                              (propInfo\<lparr>pi_ballot := ballot, pi_updated := True\<rparr>)
                              (proposals c)\<rparr>))"

definition RemoveProposal :: "('b, 'e) Cache \<Rightarrow> bytes \<Rightarrow> 'e cache_error option \<times> ('b, 'e) Cache" where
  "RemoveProposal cache proposalHash =
     (case get cache proposalHash of
        (Inl err, c) \<Rightarrow> (Some err, c)
      | (Inr propInfo, c) \<Rightarrow>
          if pi_removed propInfo then (Some (RemoveOnRemoved proposalHash), c)
          else (None, c\<lparr>proposals := AList.update (hash_of proposalHash)
                              (propInfo\<lparr>pi_removed := True\<rparr>) (proposals c)\<rparr>))"

definition Reset_cache :: "('b, 'e) Cache \<Rightarrow> (bytes \<Rightarrow> 'e + 'b option) \<Rightarrow> ('b, 'e) Cache" where
  "Reset_cache cache be = cache\<lparr>backend := be, proposals := []\<rparr>"







text \<open>The calls of one generation of a cache, run one after the other.\<close>

datatype 'b cache_op = DoGet bytes | DoUpdate bytes "'b option" | DoRemove bytes

fun cache_step :: "'b cache_op \<Rightarrow> ('b, 'e) Cache \<Rightarrow> ('b, 'e) Cache" where
  "cache_step (DoGet h) c = snd (GetProposal c h)"
| "cache_step (DoUpdate h b) c = snd (UpdateProposal c h b)"
| "cache_step (DoRemove h) c = snd (RemoveProposal c h)"

definition cache_run :: "'b cache_op list \<Rightarrow> ('b, 'e) Cache \<Rightarrow> ('b, 'e) Cache" where
  "cache_run ops c = fold cache_step ops c"



text \<open>The entry of a hash is marked removed.\<close>

definition is_removed :: "('b, 'e) Cache \<Rightarrow> bytes \<Rightarrow> bool" where
  "is_removed c h =
     (case map_of (proposals c) (hash_of h) of
        None \<Rightarrow> False
      | Some propInfo \<Rightarrow> pi_removed propInfo)"

section \<open>The bond context\<close>

text \<open>
  An address is a byte string. \<open>TxInput\<close> is the input of a payload; the bond transaction
  holds a pointer to one. \<open>Execute\<close> reads the address through it and panics on a nil
  pointer; the model takes the input as present.
\<close>

type_synonym address = bytes

record TxInput =
  in_Address :: address
  in_Amount :: "64 word"
  in_Sequence :: "64 word"

record BondTx =
  bond_Input :: TxInput

text \<open>A payload is a bond transaction or a payload of another kind.\<close>

datatype 'p Payload = PayloadBondTx BondTx | PayloadOther 'p

datatype CurveType = CurveTypeUnset | CurveTypeEd25519 | CurveTypeSecp256k1

record PublicKey =
  pk_CurveType :: CurveType
  pk_Key :: bytes

text \<open>
  An account, with the attributes the context reads or writes; \<open>acc_other\<close> holds the
  rest (sequence, code, permissions, roles), which the context hands on as it is.
\<close>

record 'x Account =
  acc_Address :: address
  acc_PublicKey :: PublicKey
  acc_Balance :: "64 word"
  acc_other :: 'x

text \<open>
  The errors \<open>Execute\<close> returns: its own five messages; an error of a collaborator, handed
  on as it is; and the panic of the nil account that \<open>GetAccount\<close> returns for an address
  the state does not know.
\<close>

datatype 'e bond_error =
    PayloadMustBeBondTx
  | Collaborator 'e
  | Secp256k1NotSupported
  | LacksBondPermission address
  | NothingToBond
  | InsufficientFunds address "64 word" "64 word"
  | NilAccountPanic

text \<open>
  The collaborators of \<open>Execute\<close> that are not among the source files, as parameters: the
  two methods of the state (\<open>acmstate.ReaderWriter\<close>) it calls, \<open>hasBondPermission\<close>,
  \<open>Account.SubtractFromBalance\<close> (which writes the account it is called on) and
  \<open>validator.AddPower\<close> on the validator set. \<open>'s\<close> is the state behind \<open>ctx.State\<close>,
  \<open>'v\<close> the one behind \<open>ctx.ValidatorSet\<close>.
\<close>

record ('s, 'v, 'x, 'e) bond_env =
  GetAccount :: "'s \<Rightarrow> address \<Rightarrow> 'e + 'x Account option"
  UpdateAccount :: "'s \<Rightarrow> 'x Account \<Rightarrow> 'e option \<times> 's"
  hasBondPermission :: "'s \<Rightarrow> 'x Account \<Rightarrow> bool"
  SubtractFromBalance :: "'x Account \<Rightarrow> 64 word \<Rightarrow> 'e option \<times> 'x Account"
  AddPower :: "'v \<Rightarrow> PublicKey \<Rightarrow> int \<Rightarrow> 'e option \<times> 'v"

record ('s, 'v) BondContext =
  ctx_State :: 's
  ctx_ValidatorSet :: 'v
  ctx_tx :: "BondTx option"

text \<open>
  \<open>BondContext.Execute\<close>. The \<open>TxExecution\<close> argument is read only for the text of the first
  error and is left out, as is the logger. The result is the error (or nil) and the context
  after the call. \<open>power\<close> is the amount as a big integer. The account that \<open>GetAccount\<close>
  returns is a value of its own: what \<open>SubtractFromBalance\<close> writes reaches the state with
  \<open>UpdateAccount\<close> only.
\<close>

definition Execute :: "('s, 'v, 'x, 'e) bond_env \<Rightarrow> ('s, 'v) BondContext \<Rightarrow> 'p Payload
    \<Rightarrow> 'e bond_error option \<times> ('s, 'v) BondContext" where
  "Execute env ctx p =
     (case p of
        PayloadOther other \<Rightarrow> (Some PayloadMustBeBondTx, ctx\<lparr>ctx_tx := None\<rparr>)
      | PayloadBondTx t \<Rightarrow>
          (let ctx1 = ctx\<lparr>ctx_tx := Some t\<rparr>;
               power = uint (in_Amount (bond_Input t))
           in case GetAccount env (ctx_State ctx1) (in_Address (bond_Input t)) of
                Inl err \<Rightarrow> (Some (Collaborator err), ctx1)
              | Inr None \<Rightarrow> (Some NilAccountPanic, ctx1)
              | Inr (Some account) \<Rightarrow>
                  if pk_CurveType (acc_PublicKey account) = CurveTypeSecp256k1
                  then (Some Secp256k1NotSupported, ctx1)
                  else if \<not> hasBondPermission env (ctx_State ctx1) account
                  then (Some (LacksBondPermission (acc_Address account)), ctx1)
                  else
                    (let amount = in_Amount (bond_Input t)
                     in if amount = 0 then (Some NothingToBond, ctx1)
                        else if acc_Balance account < amount
                        then (Some (InsufficientFunds (acc_Address account)
                                      (acc_Balance account) amount), ctx1)
                        else
                          (case SubtractFromBalance env account amount of
                             (Some err, account2) \<Rightarrow> (Some (Collaborator err), ctx1)
                           | (None, account2) \<Rightarrow>
                               (case AddPower env (ctx_ValidatorSet ctx1)
                                       (acc_PublicKey account2) power of
                                  (Some err, vs2) \<Rightarrow>
                                    (Some (Collaborator err), ctx1\<lparr>ctx_ValidatorSet := vs2\<rparr>)
                                | (None, vs2) \<Rightarrow>
                                    (case UpdateAccount env (ctx_State ctx1) account2 of
                                       (err, st2) \<Rightarrow>
                                         (map_option Collaborator err,
                                          ctx1\<lparr>ctx_ValidatorSet := vs2,
                                                ctx_State := st2\<rparr>)))))))"

text \<open>
  Modelled from the spec: the state, the validator set and the three helpers that
  \<open>Execute\<close> calls are not among the source files. The spec: an account is "addressed by
  20-byte identifier" and its "balance never underflows"; a validator is "addressed by
  public key" with a "signed power (big integer)"; the bond steps are "Subtract amount from
  balance", "Add amount to validator power for account.publicKey in the validator set
  (creating an entry if new)" and "Persist updated account". So the state is a map from
  addresses to accounts, the validator set a map from public keys to powers in which a key
  without an entry has power 0, and no step fails but the subtraction of more than the
  balance. The permission check is a parameter.
\<close>

datatype mem_error = InsufficientBalance

definition mem_GetAccount :: "(address \<rightharpoonup> 'x Account) \<Rightarrow> address \<Rightarrow> mem_error + 'x Account option" where
  "mem_GetAccount st a = Inr (st a)"

definition mem_UpdateAccount :: "(address \<rightharpoonup> 'x Account) \<Rightarrow> 'x Account
    \<Rightarrow> mem_error option \<times> (address \<rightharpoonup> 'x Account)" where
  "mem_UpdateAccount st account = (None, st(acc_Address account \<mapsto> account))"

definition mem_SubtractFromBalance :: "'x Account \<Rightarrow> 64 word \<Rightarrow> mem_error option \<times> 'x Account" where
  "mem_SubtractFromBalance account amount =
     (if acc_Balance account < amount then (Some InsufficientBalance, account)
      else (None, account\<lparr>acc_Balance := acc_Balance account - amount\<rparr>))"

definition mem_Power :: "(PublicKey \<rightharpoonup> int) \<Rightarrow> PublicKey \<Rightarrow> int" where
  "mem_Power vs pk = (case vs pk of None \<Rightarrow> 0 | Some pw \<Rightarrow> pw)"

definition mem_AddPower :: "(PublicKey \<rightharpoonup> int) \<Rightarrow> PublicKey \<Rightarrow> int
    \<Rightarrow> mem_error option \<times> (PublicKey \<rightharpoonup> int)" where
  "mem_AddPower vs pk pw = (None, vs(pk \<mapsto> mem_Power vs pk + pw))"

definition mem_env :: "((address \<rightharpoonup> 'x Account) \<Rightarrow> 'x Account \<Rightarrow> bool)
    \<Rightarrow> (address \<rightharpoonup> 'x Account, PublicKey \<rightharpoonup> int, 'x, mem_error) bond_env" where
  "mem_env perm =
     \<lparr>GetAccount = mem_GetAccount, UpdateAccount = mem_UpdateAccount,
      hasBondPermission = perm, SubtractFromBalance = mem_SubtractFromBalance,
      AddPower = mem_AddPower\<rparr>"

section \<open>The transactor\<close>

text \<open>
  Modelled from the spec: the envelope, its transaction and the signing accounts are types
  of packages that are not among the source files. The spec: an envelope has a "payload" and
  a "list of signatories", its "hash [is] deterministic over chain id + payload canonical
  encoding; rehash required after any signature set mutation", and the transactor "assigns
  input.sequence = sa.sequence + 1". So a transaction holds its inputs, the hash stored
  with it and the rest of its content; \<open>Hash\<close> reads the stored hash and \<open>Rehash\<close> stores
  the hash of the content anew.
\<close>

record 'p Tx =
  tx_Inputs :: "TxInput list"
  tx_txHash :: bytes
  tx_rest :: 'p

record ('sg, 'p) Envelope =
  Signatories :: "'sg list"
  Tx :: "'p Tx"

record SigningAccount =
  sa_Address :: address
  sa_Sequence :: "64 word"

text \<open>
  An \<open>UnlockFunc\<close> is a closure. The transactor makes four kinds: the empty function; the
  unlock that \<open>Lock\<close> of a sequential signing account returns; the function of
  \<open>SignTxMempool\<close> that defers every unlock of a slice; and the function of
  \<open>MaybeSignTxMempool\<close> that hands an unlock to \<open>once.Do\<close>. The \<open>sync.Once\<close> a closure
  captures lives in a store of flags and is named by its index there, so that every copy
  of the closure sees the same flag.
\<close>

datatype UnlockFunc =
    UnlockNoop
  | UnlockAccount address
  | UnlockDeferAll "UnlockFunc list"
  | UnlockOnce nat UnlockFunc

text \<open>
  What the calls act on: the signing locks that are held, the unlocks of signing accounts
  that were invoked (in their order), the flags of the \<open>sync.Once\<close> values, the
  transactions handed to the mempool's \<open>checkTxAsync\<close> (in their order), and the
  subscriptions of the emitter.
\<close>

record 'b World =
  w_locked :: "address list"
  w_unlocks :: "address list"
  w_once :: "bool list"
  w_mempool :: "'b list"
  w_subs :: "nat list"

record ResponseCheckTx =
  rc_Code :: "32 word"
  rc_Data :: bytes
  rc_Log :: string

record Exception =
  ex_Code :: "32 word"
  ex_Exception :: string

record 'x TxExecution =
  txe_Exception :: "Exception option"
  txe_rest :: 'x

text \<open>
  The errors the transactor returns: an error of a collaborator, handed on as it is; the
  errors it words itself. \<open>Deadlock\<close> is not an error: it stands for a \<open>Lock\<close> that never
  returns, because the lock is held and no call that is running will release it.
\<close>

datatype ('e, 'r) trans_error =
    Collab 'e
  | ErrorSigning "('e, 'r) trans_error"
  | WaitingForCheckTx
  | NoCheckTxResponse
  | CouldNotDeserialiseReceipt 'e
  | TendermintError "32 word" string
  | WaitingForTx 'r
  | ExceptionDuringExecution Exception
  | Deadlock

text \<open>
  The collaborators of the transactor that are not among the source files, as parameters:
  the lookup of a sequential signing account in the mempool accounts (its error, if any),
  the account its \<open>Lock\<close> reads, \<open>Envelope.Sign\<close>, the hash function behind \<open>Tx.Rehash\<close>,
  \<open>Envelope.Validate\<close>, the encoder, the decoder of receipts, and the two codes
  \<open>codes.TxExecutionSuccessCode\<close> and \<open>errors.Codes.ExecutionReverted\<close>.
\<close>

record ('sg, 'p, 'e, 'b, 'r) Transactor =
  tr_SequentialSigningAccount :: "address \<Rightarrow> 'e option"
  tr_getter :: "address \<Rightarrow> 'e + SigningAccount"
  tr_Sign :: "('sg, 'p) Envelope \<Rightarrow> SigningAccount list \<Rightarrow> 'e + ('sg, 'p) Envelope"
  tr_hash :: "'p Tx \<Rightarrow> bytes"
  tr_Validate :: "('sg, 'p) Envelope \<Rightarrow> 'e option"
  tr_EncodeTx :: "('sg, 'p) Envelope \<Rightarrow> 'e + 'b"
  tr_DecodeReceipt :: "bytes \<Rightarrow> 'e + 'r"
  tr_TxExecutionSuccessCode :: "32 word"
  tr_ExecutionReverted :: "32 word"

definition Tx_Hash :: "'p Tx \<Rightarrow> bytes" where
  "Tx_Hash tx = tx_txHash tx"

definition Rehash :: "('sg, 'p, 'e, 'b, 'r) Transactor \<Rightarrow> ('sg, 'p) Envelope \<Rightarrow> ('sg, 'p) Envelope" where
  "Rehash tr txEnv = txEnv\<lparr>Tx := (Tx txEnv)\<lparr>tx_txHash := tr_hash tr (Tx txEnv)\<rparr>\<rparr>"

text \<open>
  Modelled from the spec: \<open>SequentialSigningAccount.Lock\<close> is not among the source files.
  The spec: "Lock blocks until exclusive ownership is acquired" and returns the signing
  account and its unlock. With the lock held and nothing running that releases it, the call
  never returns.
\<close>

definition ssa_Lock :: "('sg, 'p, 'e, 'b, 'r) Transactor \<Rightarrow> address \<Rightarrow> 'b World
    \<Rightarrow> (('e, 'r) trans_error + SigningAccount \<times> UnlockFunc) \<times> 'b World" where
  "ssa_Lock tr a w =
     (if a \<in> set (w_locked w) then (Inl Deadlock, w)
      else case tr_getter tr a of
             Inl err \<Rightarrow> (Inl (Collab err), w)
           | Inr sa \<Rightarrow> (Inr (sa, UnlockAccount a), w\<lparr>w_locked := a # w_locked w\<rparr>))"

text \<open>
  Calling an \<open>UnlockFunc\<close>. The unlock of a signing account releases its lock and is
  recorded. Deferred calls run last in, first out: the unlocks of a slice run from its end.
  \<open>once.Do(f)\<close> calls \<open>f\<close> and then sets the flag, if the flag is not set.
\<close>

fun call_unlock :: "UnlockFunc \<Rightarrow> 'b World \<Rightarrow> 'b World" where
  "call_unlock UnlockNoop w = w"
| "call_unlock (UnlockAccount a) w =
     w\<lparr>w_locked := removeAll a (w_locked w), w_unlocks := w_unlocks w @ [a]\<rparr>"
| "call_unlock (UnlockDeferAll unlockers) w = fold call_unlock (rev unlockers) w"
| "call_unlock (UnlockOnce once unlock) w =
     (if once < length (w_once w) \<and> w_once w ! once then w
      else (let w1 = call_unlock unlock w in w1\<lparr>w_once := (w_once w1)[once := True]\<rparr>))"

text \<open>
  The loop of \<open>SignTxMempool\<close> over the inputs: it writes the sequence into each input as
  it goes, so the inputs are returned also when a later input fails; the locks taken before
  a failure stay held.
\<close>

fun lock_inputs :: "('sg, 'p, 'e, 'b, 'r) Transactor \<Rightarrow> TxInput list \<Rightarrow> 'b World
    \<Rightarrow> (('e, 'r) trans_error + SigningAccount list \<times> UnlockFunc list) \<times> TxInput list \<times> 'b World" where
  "lock_inputs tr [] w = (Inr ([], []), [], w)"
| "lock_inputs tr (input # inputs) w =
     (case tr_SequentialSigningAccount tr (in_Address input) of
        Some err \<Rightarrow> (Inl (Collab err), input # inputs, w)
      | None \<Rightarrow>
          (case ssa_Lock tr (in_Address input) w of
             (Inl err, w1) \<Rightarrow> (Inl err, input # inputs, w1)
           | (Inr (sa, unlock), w1) \<Rightarrow>
               (let input2 = input\<lparr>in_Sequence := sa_Sequence sa + 1\<rparr>
                in case lock_inputs tr inputs w1 of
                     (Inl err, inputs2, w2) \<Rightarrow> (Inl err, input2 # inputs2, w2)
                   | (Inr (signers, unlockers), inputs2, w2) \<Rightarrow>
                       (Inr (sa # signers, unlock # unlockers), input2 # inputs2, w2))))"

definition SignTxMempool :: "('sg, 'p, 'e, 'b, 'r) Transactor \<Rightarrow> ('sg, 'p) Envelope \<Rightarrow> 'b World
    \<Rightarrow> (('e, 'r) trans_error + UnlockFunc) \<times> ('sg, 'p) Envelope \<times> 'b World" where
  "SignTxMempool tr txEnv w =
     (case lock_inputs tr (tx_Inputs (Tx txEnv)) w of
        (Inl err, inputs2, w1) \<Rightarrow> (Inl err, txEnv\<lparr>Tx := (Tx txEnv)\<lparr>tx_Inputs := inputs2\<rparr>\<rparr>, w1)
      | (Inr (signers, unlockers), inputs2, w1) \<Rightarrow>
          (let txEnv1 = txEnv\<lparr>Tx := (Tx txEnv)\<lparr>tx_Inputs := inputs2\<rparr>\<rparr>
           in case tr_Sign tr txEnv1 signers of
                Inl err \<Rightarrow> (Inl (Collab err), txEnv1, w1)
              | Inr txEnv2 \<Rightarrow> (Inr (UnlockDeferAll unlockers), txEnv2, w1)))"

text \<open>\<open>MaybeSignTxMempool\<close>; \<open>var once sync.Once\<close> is a new flag in the store, not set.\<close>

definition MaybeSignTxMempool :: "('sg, 'p, 'e, 'b, 'r) Transactor \<Rightarrow> ('sg, 'p) Envelope \<Rightarrow> 'b World
    \<Rightarrow> (('e, 'r) trans_error + UnlockFunc) \<times> ('sg, 'p) Envelope \<times> 'b World" where
  "MaybeSignTxMempool tr txEnv w =
     (if length (Signatories txEnv) = 0 then
        (case SignTxMempool tr txEnv w of
           (Inl err, txEnv1, w1) \<Rightarrow> (Inl (ErrorSigning err), txEnv1, w1)
         | (Inr unlock, txEnv1, w1) \<Rightarrow>
             (let txEnv2 = Rehash tr txEnv1;
                  once = length (w_once w1);
                  w2 = w1\<lparr>w_once := w_once w1 @ [False]\<rparr>
              in (Inr (UnlockOnce once unlock), txEnv2, w2)))
      else (Inr UnlockNoop, txEnv, w))"

text \<open>
  What \<open>CheckTxSyncRaw\<close> meets after it has handed the bytes to \<open>checkTxAsync\<close>: an error
  of that call, the end of the caller's context, or a response on the channel (whose
  \<open>GetCheckTx\<close> may be nil).
\<close>

datatype 'e raw_event = AsyncError 'e | RawCtxDone | RawResponse "ResponseCheckTx option"

definition CheckTxSyncRaw :: "('sg, 'p, 'e, 'b, 'r) Transactor \<Rightarrow> 'e raw_event \<Rightarrow> 'b \<Rightarrow> 'b World
    \<Rightarrow> (('e, 'r) trans_error + 'r) \<times> 'b World" where
  "CheckTxSyncRaw tr ev txBytes w =
     (let w1 = w\<lparr>w_mempool := w_mempool w @ [txBytes]\<rparr>
      in case ev of
           AsyncError err \<Rightarrow> (Inl (Collab err), w1)
         | RawCtxDone \<Rightarrow> (Inl WaitingForCheckTx, w1)
         | RawResponse None \<Rightarrow> (Inl NoCheckTxResponse, w1)
         | RawResponse (Some checkTxResponse) \<Rightarrow>
             if rc_Code checkTxResponse = tr_TxExecutionSuccessCode tr then
               (case tr_DecodeReceipt tr (rc_Data checkTxResponse) of
                  Inl err \<Rightarrow> (Inl (CouldNotDeserialiseReceipt err), w1)
                | Inr receipt \<Rightarrow> (Inr receipt, w1))
             else (Inl (TendermintError (rc_Code checkTxResponse) (rc_Log checkTxResponse)), w1))"

text \<open>\<open>CheckTxSync\<close>: the deferred unlock runs at every return after the signing.\<close>

definition CheckTxSync :: "('sg, 'p, 'e, 'b, 'r) Transactor \<Rightarrow> 'e raw_event \<Rightarrow> ('sg, 'p) Envelope
    \<Rightarrow> 'b World \<Rightarrow> (('e, 'r) trans_error + 'r) \<times> ('sg, 'p) Envelope \<times> 'b World" where
  "CheckTxSync tr ev txEnv w =
     (case MaybeSignTxMempool tr txEnv w of
        (Inl err, txEnv1, w1) \<Rightarrow> (Inl err, txEnv1, w1)
      | (Inr unlock, txEnv1, w1) \<Rightarrow>
          (case tr_Validate tr txEnv1 of
             Some err \<Rightarrow> (Inl (Collab err), txEnv1, call_unlock unlock w1)
           | None \<Rightarrow>
               (case tr_EncodeTx tr txEnv1 of
                  Inl err \<Rightarrow> (Inl (Collab err), txEnv1, call_unlock unlock w1)
                | Inr txBytes \<Rightarrow>
                    (case CheckTxSyncRaw tr ev txBytes w1 of
                       (res, w2) \<Rightarrow> (res, txEnv1, call_unlock unlock w2)))))"

text \<open>
  Modelled from the spec: \<open>TxExecution.CallError\<close> is not among the source files. The spec:
  a \<open>TxExecution\<close> has an "optional exception", and the transactor looks whether "it carries
  a non-revert execution exception". So the call error is the exception, if there is one,
  and its code is the exception's.
\<close>

definition CallError :: "'x TxExecution \<Rightarrow> Exception option" where
  "CallError txe = txe_Exception txe"

definition ErrorCode :: "Exception \<Rightarrow> 32 word" where
  "ErrorCode callError = ex_Code callError"

text \<open>
  What one call of \<open>BroadcastTxSync\<close> meets from outside: the subscription id that is
  generated, the error of \<open>Subscribe\<close> (or nil), what \<open>CheckTxSyncRaw\<close> meets, and which case
  of the last \<open>select\<close> comes first: the end of the context, or the committed
  \<open>TxExecution\<close> on the subscription.
\<close>

datatype 'x select_event = SelCtxDone | SelMsg "'x TxExecution"

record ('e, 'x) outcomes =
  oc_subID :: nat
  oc_subscribe :: "'e option"
  oc_checkTx :: "'e raw_event"
  oc_select :: "'x select_event"

text \<open>The \<open>case msg := <-out\<close> of the \<open>select\<close>.\<close>

definition on_msg :: "('sg, 'p, 'e, 'b, 'r) Transactor \<Rightarrow> 'x TxExecution
    \<Rightarrow> ('e, 'r) trans_error + 'x TxExecution" where
  "on_msg tr txe =
     (case CallError txe of
        None \<Rightarrow> Inr txe
      | Some callError \<Rightarrow>
          if ErrorCode callError \<noteq> tr_ExecutionReverted tr
          then Inl (ExceptionDuringExecution callError)
          else Inr txe)"

text \<open>
  \<open>BroadcastTxSync\<close>. The two deferred calls run at every return after they are deferred,
  last in, first out: \<open>UnsubscribeAll\<close>, then \<open>unlock\<close>.
\<close>

definition BroadcastTxSync :: "('sg, 'p, 'e, 'b, 'r) Transactor \<Rightarrow> ('e, 'x) outcomes
    \<Rightarrow> ('sg, 'p) Envelope \<Rightarrow> 'b World
    \<Rightarrow> (('e, 'r) trans_error + 'x TxExecution) \<times> ('sg, 'p) Envelope \<times> 'b World" where
  "BroadcastTxSync tr oc txEnv w =
     (case MaybeSignTxMempool tr txEnv w of
        (Inl err, txEnv1, w1) \<Rightarrow> (Inl err, txEnv1, w1)
      | (Inr unlock, txEnv1, w1) \<Rightarrow>
          (let txHash = Tx_Hash (Tx txEnv1);
               subID = oc_subID oc
           in case oc_subscribe oc of
                Some err \<Rightarrow> (Inl (Collab err), txEnv1, call_unlock unlock w1)
              | None \<Rightarrow>
                  (let w2 = w1\<lparr>w_subs := subID # w_subs w1\<rparr>;
                       deferred = (\<lambda>w. call_unlock unlock
                                          (w\<lparr>w_subs := removeAll subID (w_subs w)\<rparr>))
                   in case CheckTxSync tr (oc_checkTx oc) txEnv1 w2 of
                        (checked, txEnv2, w3) \<Rightarrow>
                          (let w4 = call_unlock unlock w3
                           in case checked of
                                Inl err \<Rightarrow> (Inl err, txEnv2, deferred w4)
                              | Inr checkTxReceipt \<Rightarrow>
                                  (case oc_select oc of
                                     SelCtxDone \<Rightarrow>
                                       (Inl (WaitingForTx checkTxReceipt), txEnv2, deferred w4)
                                   | SelMsg txe \<Rightarrow>
                                       (on_msg tr txe, txEnv2, deferred w4))))))"

subsection \<open>A transactor and its surroundings for examples\<close>

text \<open>
  As in the test of \<open>BroadcastTxSync\<close>: every account is known and signs, the mempool
  answers with the success code, and the committed \<open>TxExecution\<close> arrives. The signatory of
  an account is its address, the encoding of an envelope is its transaction, the receipt is
  the data of the response.
\<close>

definition tr0 :: "(address, unit, unit, unit Tx, bytes) Transactor" where
  "tr0 = \<lparr>tr_SequentialSigningAccount = (\<lambda>a. None),
          tr_getter = (\<lambda>a. Inr \<lparr>sa_Address = a, sa_Sequence = 7\<rparr>),
          tr_Sign = (\<lambda>txEnv signers. Inr (txEnv\<lparr>Signatories := map sa_Address signers\<rparr>)),
          tr_hash = (\<lambda>tx. concat (map in_Address (tx_Inputs tx))),
          tr_Validate = (\<lambda>txEnv. None),
          tr_EncodeTx = (\<lambda>txEnv. Inr (Tx txEnv)),
          tr_DecodeReceipt = (\<lambda>bs. Inr bs),
          tr_TxExecutionSuccessCode = 0,
          tr_ExecutionReverted = 17\<rparr>"

definition unsigned0 :: "(address, unit) Envelope" where
  "unsigned0 =
     \<lparr>Signatories = [],
      Tx = \<lparr>tx_Inputs = [\<lparr>in_Address = [1], in_Amount = 0, in_Sequence = 0\<rparr>,
                          \<lparr>in_Address = [2], in_Amount = 0, in_Sequence = 0\<rparr>],
            tx_txHash = [], tx_rest = ()\<rparr>\<rparr>"

definition signed0 :: "(address, unit) Envelope" where
  "signed0 =
     \<lparr>Signatories = [[1]],
      Tx = \<lparr>tx_Inputs = [\<lparr>in_Address = [1], in_Amount = 0, in_Sequence = 3\<rparr>],
            tx_txHash = [9], tx_rest = ()\<rparr>\<rparr>"

definition world0 :: "unit Tx World" where
  "world0 = \<lparr>w_locked = [], w_unlocks = [], w_once = [], w_mempool = [], w_subs = []\<rparr>"

definition committed :: "32 word \<Rightarrow> (unit, unit) outcomes" where
  "committed code =
     \<lparr>oc_subID = 1, oc_subscribe = None,
      oc_checkTx = RawResponse (Some \<lparr>rc_Code = 0, rc_Data = [5], rc_Log = []\<rparr>),
      oc_select = SelMsg \<lparr>txe_Exception = Some \<lparr>ex_Code = code, ex_Exception = ''exception''\<rparr>,
                          txe_rest = ()\<rparr>\<rparr>"

section \<open>Properties of the byte order\<close>

lemma bytes_Compare_less: "bytes_Compare a b = - 1 \<longleftrightarrow> a < b"
  by (induction a b rule: bytes_Compare.induct) auto

lemma bytes_Compare_eq: "bytes_Compare a b = 0 \<longleftrightarrow> a = b"
  by (induction a b rule: bytes_Compare.induct) auto

lemma bytes_Compare_greater: "bytes_Compare a b = 1 \<longleftrightarrow> b < a"
  by (induction a b rule: bytes_Compare.induct) auto

lemma bytes_Compare_range: "bytes_Compare a b \<in> {- 1, 0, 1}"
  by (induction a b rule: bytes_Compare.induct) auto

lemma byteSlices_Less_less: "byteSlices_Less a b \<longleftrightarrow> string_of a < string_of b"
  by (simp add: byteSlices_Less_def bytes_Compare_less)

lemma insert_Less_insort_key:
  fixes f :: "'a \<Rightarrow> 'b::linorder"
  assumes "\<And>a b. lt a b \<longleftrightarrow> f a < f b"
  shows "insert_Less lt x ys = insort_key f x ys"
  by (induction ys) (auto simp: assms)

lemma foldr_insert_Less_sort_key:
  fixes f :: "'a \<Rightarrow> 'b::linorder"
  assumes "\<And>a b. lt a b \<longleftrightarrow> f a < f b"
  shows "foldr (insert_Less lt) xs [] = sort_key f xs"
  by (induction xs) (simp_all add: insert_Less_insort_key[of lt f, OF assms])

lemma sort_Sort_sort_key: "sort_Sort byteSlices_Less xs = sort_key string_of xs"
  unfolding sort_Sort_def
  by (rule foldr_insert_Less_sort_key) (rule byteSlices_Less_less)

section \<open>Properties of KVCache\<close>

lemma apply_ops_snoc: "apply_ops (ops @ [x]) kvc = apply_op x (apply_ops ops kvc)"
  by (simp add: apply_ops_def)

lemma Get_Set_kv: "Get (Set_kv kvc k v) k = v"
  by (simp add: Get_def Set_kv_def cache_lookup_def Let_def split: option.splits prod.splits)

lemma Has_Set_kv: "Has (Set_kv kvc k v) k"
  by (simp add: Has_def Set_kv_def cache_lookup_def Let_def split: option.splits prod.splits)

lemma Info_Set_kv: "Info (Set_kv kvc k v) k = (v, False)"
  by (simp add: Info_def Set_kv_def cache_lookup_def Let_def split: option.splits prod.splits)

lemma Get_Delete: "Get (Delete kvc k) k = None"
  by (simp add: Get_def Delete_def cache_lookup_def Let_def split: option.splits prod.splits)

lemma Has_Delete: "\<not> Has (Delete kvc k) k"
  by (simp add: Has_def Delete_def cache_lookup_def Let_def split: option.splits prod.splits)

lemma Info_Delete: "Info (Delete kvc k) k = (None, True)"
  by (simp add: Info_def Delete_def cache_lookup_def Let_def split: option.splits prod.splits)

text \<open>
  Claim C4. For every key \<open>k\<close>, after any sequence of writes that ends with \<open>Set(k, v)\<close>,
  \<open>Get(k)\<close> is \<open>v\<close>, \<open>Has(k)\<close> is true and the tombstone is cleared; after any sequence
  that ends with \<open>Delete(k)\<close>, \<open>Get(k)\<close> is nil, \<open>Has(k)\<close> is false and the tombstone is
  set. The earlier writes (to \<open>k\<close> or to other keys) and the cache they start from are
  arbitrary, and the key may be nil.
\<close>

theorem last_write_wins:
  "Get (apply_ops (ops @ [OpSet k v]) kvc) k = v \<and>
   Has (apply_ops (ops @ [OpSet k v]) kvc) k \<and>
   Info (apply_ops (ops @ [OpSet k v]) kvc) k = (v, False) \<and>
   Get (apply_ops (ops @ [OpDelete k]) kvc) k = None \<and>
   \<not> Has (apply_ops (ops @ [OpDelete k]) kvc) k \<and>
   Info (apply_ops (ops @ [OpDelete k]) kvc) k = (None, True)"
  by (simp add: apply_ops_snoc Get_Set_kv Has_Set_kv Get_Delete Has_Delete Info_Set_kv
      Info_Delete)

theorem last_write_wins_witness:
  "Get (apply_ops ([OpSet (Some [1]) (Some [5]), OpDelete (Some [1])] @ [OpSet (Some [1]) (Some [7])])
      NewKVCache) (Some [1]) = Some [7] \<and>
   Has (apply_ops ([OpSet (Some [1]) (Some [5]), OpDelete (Some [1])] @ [OpSet (Some [1]) (Some [7])])
      NewKVCache) (Some [1]) \<and>
   Get (apply_ops ([OpSet (Some [1]) (Some [5]), OpDelete (Some [1])] @ [OpDelete (Some [1])])
      NewKVCache) (Some [1]) = None \<and>
   \<not> Has (apply_ops ([OpSet (Some [1]) (Some [5]), OpDelete (Some [1])] @ [OpDelete (Some [1])])
      NewKVCache) (Some [1])"
  using last_write_wins [of "[OpSet (Some [1]) (Some [5]), OpDelete (Some [1])]" "Some [1]"
      "Some [7]" NewKVCache]
  by simp

subsection \<open>The keys slice\<close>

lemma kv_inv_New: "kv_inv NewKVCache"
  by (simp add: kv_inv_def NewKVCache_def)

lemma kv_inv_apply_op: "kv_inv kvc \<Longrightarrow> kv_inv (apply_op x kvc)"
  by (cases x)
     (auto simp: kv_inv_def Set_kv_def Delete_def cache_lookup_def Let_def split: option.splits)

lemma keys_apply_op:
  "kv_inv kvc \<Longrightarrow>
     set (kv_keys (apply_op x kvc)) \<subseteq> insert (op_key x) (set (kv_keys kvc)) \<and>
     set (kv_keys kvc) \<subseteq> set (kv_keys (apply_op x kvc)) \<and>
     string_of ` set (kv_keys (apply_op x kvc)) =
       insert (string_of (op_key x)) (string_of ` set (kv_keys kvc))"
  by (cases x)
     (auto simp: kv_inv_def Set_kv_def Delete_def cache_lookup_def Let_def split: option.splits)

lemma apply_ops_inv_keys:
  "kv_inv kvc \<Longrightarrow>
     kv_inv (apply_ops ops kvc) \<and>
     set (kv_keys (apply_ops ops kvc)) \<subseteq> op_key ` set ops \<union> set (kv_keys kvc) \<and>
     string_of ` set (kv_keys (apply_ops ops kvc)) =
       string_of ` op_key ` set ops \<union> string_of ` set (kv_keys kvc)"
proof (induction ops rule: rev_induct)
  case Nil
  then show ?case by (simp add: apply_ops_def)
next
  case (snoc x xs)
  then have inv: "kv_inv (apply_ops xs kvc)" by simp
  from keys_apply_op[OF inv, of x] snoc show ?case
    by (auto simp: apply_ops_snoc kv_inv_apply_op)
qed

text \<open>Without a nil key among the writes, the slice holds exactly the keys written.\<close>

lemma Some_string_of: "x \<noteq> None \<Longrightarrow> Some (string_of x) = x"
  by (cases x) (simp_all add: string_of_def)

lemma string_of_inj_Some:
  assumes "None \<notin> A" and "None \<notin> B" and "string_of ` A = string_of ` B"
  shows "A = B"
proof -
  have "X \<subseteq> Y" if x: "None \<notin> X" and y: "None \<notin> Y" and e: "string_of ` X = string_of ` Y"
    for X Y :: "bytes option set"
  proof
    fix k assume k: "k \<in> X"
    then have "string_of k \<in> string_of ` Y" using e by auto
    then obtain j where j: "j \<in> Y" and "string_of j = string_of k" by auto
    moreover have "j \<noteq> None" using j y by metis
    moreover have "k \<noteq> None" using k x by metis
    ultimately have "j = k" using Some_string_of by metis
    then show "k \<in> Y" using j by simp
  qed
  from this[OF assms(1,2,3)] this[OF assms(2,1) assms(3)[symmetric]] show ?thesis by auto
qed

lemma apply_ops_new_keys:
  assumes "None \<notin> op_key ` set ops"
  shows "set (kv_keys (apply_ops ops NewKVCache)) = op_key ` set ops"
proof -
  from apply_ops_inv_keys[OF kv_inv_New, of ops]
  have sub: "set (kv_keys (apply_ops ops NewKVCache)) \<subseteq> op_key ` set ops"
    and str: "string_of ` set (kv_keys (apply_ops ops NewKVCache)) = string_of ` op_key ` set ops"
    by (simp_all add: NewKVCache_def)
  from sub assms have "None \<notin> set (kv_keys (apply_ops ops NewKVCache))" by auto
  from string_of_inj_Some[OF this assms str] show ?thesis .
qed


subsection \<open>Seeking in a sorted slice\<close>

lemma seek_never: "(\<And>x. x \<in> set xs \<Longrightarrow> \<not> P x) \<Longrightarrow> seek P xs = length xs"
  by (induction xs) auto

lemma seek_cong: "(\<And>x. x \<in> set xs \<Longrightarrow> P x = Q x) \<Longrightarrow> seek P xs = seek Q xs"
  by (induction xs) auto

lemma drop_seek_sorted:
  fixes f :: "'a \<Rightarrow> 'b::linorder"
  shows "sorted (map f xs) \<Longrightarrow> drop (seek (\<lambda>k. \<not> f k < l) xs) xs = filter (\<lambda>k. l \<le> f k) xs"
proof (induction xs)
  case Nil
  then show ?case by simp
next
  case (Cons x xs)
  show ?case
  proof (cases "f x < l")
    case True
    with Cons show ?thesis by auto
  next
    case False
    with Cons.prems have "\<forall>y\<in>set (x # xs). l \<le> f y" by auto
    then have "filter (\<lambda>k. l \<le> f k) (x # xs) = x # xs" by (simp only: filter_True)
    with False show ?thesis by simp
  qed
qed

lemma take_seek_sorted:
  fixes f :: "'a \<Rightarrow> 'b::linorder"
  shows "sorted (map f xs) \<Longrightarrow> take (seek (\<lambda>k. \<not> f k < h) xs) xs = filter (\<lambda>k. f k < h) xs"
proof (induction xs)
  case Nil
  then show ?case by simp
next
  case (Cons x xs)
  show ?case
  proof (cases "f x < h")
    case True
    with Cons show ?thesis by auto
  next
    case False
    with Cons.prems have "\<forall>y\<in>set (x # xs). \<not> f y < h" by auto
    then have "filter (\<lambda>k. f k < h) (x # xs) = []" by (simp only: filter_False)
    with False show ?thesis by simp
  qed
qed

subsection \<open>What an iterator yields\<close>

lemma yielded_forward:
  "\<not> it_reverse kvi \<Longrightarrow> yielded kvi = Some (drop (it_keyIndex kvi) (it_keys kvi))"
proof (induction kvi rule: yielded.induct)
  case (1 kvi)
  show ?case
  proof (cases "Valid kvi")
    case False
    then show ?thesis by (subst yielded.simps) (simp add: Valid_def)
  next
    case True
    then have lt: "it_keyIndex kvi < length (it_keys kvi)" by (simp add: Valid_def)
    have k: "Key kvi = Some (it_keys kvi ! it_keyIndex kvi)"
      using lt "1.prems" by (simp add: Key_def sliceIndex_def)
    have n: "Next kvi = Some (kvi\<lparr>it_keyIndex := it_keyIndex kvi + 1\<rparr>)"
      using True by (simp add: Next_def)
    have "yielded (kvi\<lparr>it_keyIndex := it_keyIndex kvi + 1\<rparr>) =
            Some (drop (it_keyIndex kvi + 1) (it_keys kvi))"
      using "1.IH"[OF True k n] "1.prems" by simp
    then show ?thesis
      using True k n lt by (subst yielded.simps) (simp add: Cons_nth_drop_Suc)
  qed
qed

lemma in_domain_filter:
  "filter (in_domain (Some l) high) xs =
     filter (\<lambda>k. case high of None \<Rightarrow> True | Some h \<Rightarrow> string_of k < h)
       (filter (\<lambda>k. l \<le> string_of k) xs)"
  by (induction xs)
     (auto simp: in_domain_def bytes_Compare_less bytes_Compare_greater not_less
           split: option.splits)

lemma CompareKeys_low:
  "key \<noteq> None \<Longrightarrow> (CompareKeys key (Some l) \<noteq> - 1) = (\<not> string_of key < l)"
  by (cases key) (simp_all add: string_of_def bytes_Compare_less)

lemma CompareKeys_high_None: "key \<noteq> None \<Longrightarrow> CompareKeys key None = - 1"
  by (cases key) simp_all

text \<open>
  With no nil key in the slice, the two loops select from the sorted slice the keys in the
  range.
\<close>

lemma sortedKeysInDomain_filter:
  assumes nn: "None \<notin> set (kv_keys kvc)"
  shows "fst (sortedKeysInDomain kvc (Some l) high) =
     filter (in_domain (Some l) high) (sort_key string_of (kv_keys kvc))"
proof -
  let ?ks = "sort_key string_of (kv_keys kvc)"
  let ?lo = "filter (\<lambda>k. l \<le> string_of k) ?ks"
  have nk: "\<And>x. x \<in> set ?ks \<Longrightarrow> x \<noteq> None" using nn by (metis set_sort)
  have nl: "\<And>x. x \<in> set ?lo \<Longrightarrow> x \<noteq> None" using nk by (metis filter_is_subset subsetD)
  have lo: "seek (\<lambda>key. CompareKeys key (Some l) \<noteq> - 1) ?ks = seek (\<lambda>k. \<not> string_of k < l) ?ks"
    by (rule seek_cong) (simp add: CompareKeys_low nk)
  have d: "drop (seek (\<lambda>k. \<not> string_of k < l) ?ks) ?ks = ?lo"
    by (rule drop_seek_sorted) simp
  have s2: "sorted (map string_of ?lo)" by (simp add: sorted_filter)
  have "fst (sortedKeysInDomain kvc (Some l) high) =
          take (seek (\<lambda>key. CompareKeys key high \<noteq> - 1)
                  (drop (seek (\<lambda>key. CompareKeys key (Some l) \<noteq> - 1) ?ks) ?ks))
               (drop (seek (\<lambda>key. CompareKeys key (Some l) \<noteq> - 1) ?ks) ?ks)"
    by (simp only: sortedKeysInDomain_def Let_def fst_conv sort_Sort_sort_key)
  then have main: "fst (sortedKeysInDomain kvc (Some l) high) =
          take (seek (\<lambda>key. CompareKeys key high \<noteq> - 1) ?lo) ?lo"
    by (simp only: lo d)
  show ?thesis
  proof (cases high)
    case None
    have "seek (\<lambda>key. CompareKeys key None \<noteq> - 1) ?lo = length ?lo"
      by (rule seek_never) (simp add: CompareKeys_high_None nl)
    then have "fst (sortedKeysInDomain kvc (Some l) high) = ?lo"
      using main None by simp
    then show ?thesis using None by (simp add: in_domain_filter)
  next
    case (Some h)
    have hi: "seek (\<lambda>key. CompareKeys key (Some h) \<noteq> - 1) ?lo = seek (\<lambda>k. \<not> string_of k < h) ?lo"
      by (rule seek_cong) (simp add: CompareKeys_low nl)
    have "take (seek (\<lambda>k. \<not> string_of k < h) ?lo) ?lo = filter (\<lambda>k. string_of k < h) ?lo"
      by (rule take_seek_sorted[OF s2])
    then have "fst (sortedKeysInDomain kvc (Some l) high) = filter (\<lambda>k. string_of k < h) ?lo"
      using main Some by (simp only: hi)
    then show ?thesis using Some by (simp add: in_domain_filter)
  qed
qed

lemma in_domain_Normalise:
  "in_domain (fst (NormaliseDomain low high)) (snd (NormaliseDomain low high)) k
     = in_domain low high k"
  by (cases low) (auto simp: in_domain_def NormaliseDomain_def bytes_Compare_greater)

text \<open>
  With no nil key in the slice, the iterator over \<open>[low, high)\<close> yields the keys slice,
  sorted, without the keys outside the range: whatever the map holds for its keys.
\<close>

lemma Iterator_yielded:
  assumes "None \<notin> set (kv_keys kvc)"
  shows "yielded (fst (Iterator kvc low high)) =
     Some (filter (in_domain low high) (sort_key string_of (kv_keys kvc)))"
proof -
  obtain l where l: "fst (NormaliseDomain low high) = Some l"
    by (cases low) (auto simp: NormaliseDomain_def)
  have h: "snd (NormaliseDomain low high) = high" by (simp add: NormaliseDomain_def)
  have dom: "in_domain (Some l) high = in_domain low high"
    using in_domain_Normalise[of low high] l h by (simp add: fun_eq_iff)
  have it: "fst (Iterator kvc low high) =
     \<lparr>it_cache = kv_cache kvc, it_start = Some l, it_end = high,
       it_keys = fst (sortedKeysInDomain kvc (Some l) high), it_keyIndex = 0,
       it_reverse = False\<rparr>"
    using l h
    by (simp add: Iterator_def newIterator_def split_beta sortedKeysInDomain_def Let_def)
  show ?thesis
    by (simp add: it yielded_forward sortedKeysInDomain_filter[OF assms] dom)
qed


text \<open>
  Claim C5, as amended: the keys are not nil. On a new KVCache, after any sets and deletes
  \<open>ops\<close> on non-nil keys, the consumer of \<open>Iterator(low, high)\<close> reads a list \<open>ys\<close> of keys
  that is strictly ascending in the order of \<open>bytes.Compare\<close> (so each key comes once) and
  holds exactly the keys written that lie in \<open>[low, high)\<close>: a key that was deleted (a
  tombstone) is among them, a key outside the range is not. So after \<open>N\<close> sets on distinct
  keys that all lie in the range, \<open>ys\<close> holds exactly these keys and has length \<open>N\<close>.
\<close>

theorem Iterator_yields_set_keys:
  assumes "None \<notin> op_key ` set ops"
  shows "\<exists>ys. yielded (fst (Iterator (apply_ops ops NewKVCache) low high)) = Some ys \<and>
           sorted_wrt byteSlices_Less ys \<and>
           set ys = {k \<in> op_key ` set ops. in_domain low high k} \<and>
           (distinct (map op_key ops) \<and> (\<forall>k \<in> op_key ` set ops. in_domain low high k) \<longrightarrow>
              set ys = op_key ` set ops \<and> length ys = length ops)"
proof -
  let ?kvc = "apply_ops ops NewKVCache"
  let ?ys = "filter (in_domain low high) (sort_key string_of (kv_keys ?kvc))"
  have ks: "set (kv_keys ?kvc) = op_key ` set ops"
    by (rule apply_ops_new_keys[OF assms])
  then have nn: "None \<notin> set (kv_keys ?kvc)" using assms by simp
  have y: "yielded (fst (Iterator ?kvc low high)) = Some ?ys"
    by (rule Iterator_yielded[OF nn])
  have "kv_inv ?kvc" using apply_ops_inv_keys[OF kv_inv_New, of ops] by simp
  then have "distinct (map string_of (kv_keys ?kvc))" by (simp add: kv_inv_def)
  then have dm: "distinct (map string_of (sort_key string_of (kv_keys ?kvc)))"
    by (metis distinct_map distinct_sort set_sort)
  moreover have "sorted (map string_of (sort_key string_of (kv_keys ?kvc)))" by simp
  ultimately have "sorted_wrt (<) (map string_of (sort_key string_of (kv_keys ?kvc)))"
    by (simp add: strict_sorted_iff)
  then have "sorted_wrt (\<lambda>a b. string_of a < string_of b) (sort_key string_of (kv_keys ?kvc))"
    by (simp add: sorted_wrt_map)
  then have "sorted_wrt (\<lambda>a b. string_of a < string_of b) ?ys"
    by (rule sorted_wrt_filter)
  then have s: "sorted_wrt byteSlices_Less ?ys"
    by (simp add: byteSlices_Less_less[abs_def])
  have e: "set ?ys = {k \<in> op_key ` set ops. in_domain low high k}"
    using ks by auto
  have n: "set ?ys = op_key ` set ops \<and> length ?ys = length ops"
    if d: "distinct (map op_key ops)" and a: "\<forall>k \<in> op_key ` set ops. in_domain low high k"
  proof -
    have e': "set ?ys = set (map op_key ops)" using e a by auto
    have "distinct (sort_key string_of (kv_keys ?kvc))"
      using dm by (simp add: distinct_map)
    then have "distinct ?ys" by simp
    then have "length ?ys = length (map op_key ops)"
      using e' d by (metis distinct_card)
    then show ?thesis using e' by simp
  qed
  from y s e n show ?thesis by blast
qed

theorem Iterator_yields_set_keys_witness:
  "None \<notin> op_key ` set [OpSet (Some [2]) (Some [9]), OpDelete (Some [3]), OpSet (Some [1]) None] \<and>
   distinct (map op_key [OpSet (Some [2]) (Some [9]), OpDelete (Some [3]), OpSet (Some [1]) None]) \<and>
   in_domain (Some [1]) (Some [4]) (Some [2]) \<and> in_domain (Some [1]) (Some [4]) (Some [3]) \<and>
   in_domain (Some [1]) (Some [4]) (Some [1]) \<and>
   (\<exists>ys. yielded (fst (Iterator (apply_ops
              [OpSet (Some [2]) (Some [9]), OpDelete (Some [3]), OpSet (Some [1]) None]
              NewKVCache) (Some [1]) (Some [4]))) = Some ys \<and>
         sorted_wrt byteSlices_Less ys \<and>
         set ys = {Some [2], Some [3], Some [1]} \<and> length ys = 3)"
proof -
  let ?ops = "[OpSet (Some [2]) (Some [9]), OpDelete (Some [3]), OpSet (Some [1]) None]"
  have h1: "None \<notin> op_key ` set ?ops" by simp
  have h2: "distinct (map op_key ?ops)" by simp
  have d2: "in_domain (Some [1]) (Some [4]) (Some [2])" by (simp add: in_domain_def string_of_def)
  have d3: "in_domain (Some [1]) (Some [4]) (Some [3])" by (simp add: in_domain_def string_of_def)
  have d1: "in_domain (Some [1]) (Some [4]) (Some [1])" by (simp add: in_domain_def string_of_def)
  have h3: "\<forall>k \<in> op_key ` set ?ops. in_domain (Some [1]) (Some [4]) k"
    using d1 d2 d3 by simp
  have k: "op_key ` set ?ops = {Some [2], Some [3], Some [1]}" by simp
  from Iterator_yields_set_keys [OF h1, of "Some [1]" "Some [4]"] h2 h3
  obtain ys where "yielded (fst (Iterator (apply_ops ?ops NewKVCache) (Some [1]) (Some [4]))) = Some ys"
    and "sorted_wrt byteSlices_Less ys" and "set ys = op_key ` set ?ops"
    and "length ys = length ?ops"
    by blast
  then show ?thesis using h1 h2 d1 d2 d3 k by auto
qed

text \<open>
  Claim C5 as it is written fails for the nil key. The nil key is the empty byte string
  for the map and for the sort, so it comes first in the sorted slice; for \<open>CompareKeys\<close>
  it stands above every bound, so both loops of \<open>sortedKeysInDomain\<close> stop at it. After
  \<open>Set(nil, [2])\<close> and \<open>Set([1], [3])\<close> on a new cache both keys are present and lie in the
  full domain, and the iterator over the full domain yields no key.
\<close>

theorem Iterator_nil_key_counterexample:
  "distinct (map op_key [OpSet None (Some [2]), OpSet (Some [1]) (Some [3])]) \<and>
   in_domain None None None \<and> in_domain None None (Some [1]) \<and>
   Has (apply_ops [OpSet None (Some [2]), OpSet (Some [1]) (Some [3])] NewKVCache) None \<and>
   Has (apply_ops [OpSet None (Some [2]), OpSet (Some [1]) (Some [3])] NewKVCache) (Some [1]) \<and>
   yielded (fst (Iterator (apply_ops [OpSet None (Some [2]), OpSet (Some [1]) (Some [3])]
      NewKVCache) None None)) = Some []"
  by code_simp

text \<open>
  After \<open>Reset\<close> the map is empty, so \<open>Get\<close> returns nil and \<open>Has\<close> is false for every
  key, whatever was written before.
\<close>

lemma Get_Has_Reset: "Get (Reset kvc) k = None \<and> \<not> Has (Reset kvc) k"
  by (simp add: Get_def Has_def Reset_def cache_lookup_def zero_valueInfo_def)

text \<open>
  Claim C6 says that after \<open>Reset\<close> the cache has no entries: \<open>Get\<close> returns nil, \<open>Has\<close> is
  false, and the iterator over the full domain yields no key. The code does the first two
  and not the third: \<open>Reset\<close> leaves the keys slice, which the iterator reads. After
  \<open>Set([1], [2])\<close> and \<open>Reset()\<close> the iterator over the full domain still yields the key
  \<open>[1]\<close>, for which \<open>Get\<close> returns nil and \<open>Has\<close> is false.
\<close>

theorem Reset_keeps_keys:
  "yielded (fst (Iterator (Reset (Set_kv NewKVCache (Some [1]) (Some [2]))) None None))
     = Some [Some [1]] \<and>
   Get (Reset (Set_kv NewKVCache (Some [1]) (Some [2]))) (Some [1]) = None \<and>
   \<not> Has (Reset (Set_kv NewKVCache (Some [1]) (Some [2]))) (Some [1])"
  by code_simp

text \<open>
  The key index that is left behind also takes a key twice when the key is set again after
  \<open>Reset\<close>: the map has no entry for it, so \<open>Set\<close> appends it once more.
\<close>

lemma Reset_then_Set_yields_twice:
  "yielded (fst (Iterator (Set_kv (Reset (Set_kv NewKVCache (Some [1]) (Some [2]))) (Some [1])
     (Some [3])) None None)) = Some [Some [1], Some [1]]"
  by code_simp

section \<open>Properties of the proposal cache\<close>


lemma ProposalHashArray_Less_no_panic: "ProposalHashArray_Less a b \<noteq> None"
  using bytes_Compare_range[of a b] by (auto simp: ProposalHashArray_Less_def Let_def)










lemma cache_run_snoc: "cache_run (ops @ [x]) c = cache_step x (cache_run ops c)"
  by (simp add: cache_run_def)



text \<open>\<open>Reset\<close> starts a generation as \<open>NewCache\<close> does.\<close>

lemma Reset_cache_NewCache: "Reset_cache (c :: ('b, 'e) Cache) be = NewCache be"
  by (simp add: Reset_cache_def NewCache_def)


subsection \<open>The entry of a hash depends on the calls made with that hash\<close>












subsection \<open>Removal\<close>

lemma get_removed:
  "is_removed c h \<Longrightarrow> \<exists>propInfo. get c h = (Inr propInfo, c) \<and> pi_removed propInfo"
  by (auto simp: is_removed_def get_def Let_def split: option.splits)

lemma removed_get: "is_removed c h \<Longrightarrow> is_removed (snd (get c k)) h"
  by (auto simp: is_removed_def get_def Let_def update_conv' split: option.splits sum.splits)

lemma get_cases:
  "(\<exists>err. get c k = (Inl err, c)) \<or>
   (\<exists>propInfo. fst (get c k) = Inr propInfo \<and> map_of (proposals (snd (get c k))) (hash_of k) = Some propInfo)"
  by (auto simp: get_def Let_def update_conv' split: option.splits sum.splits)

lemma removed_step: "is_removed c h \<Longrightarrow> is_removed (cache_step x c) h"
proof (cases x)
  case (DoGet k)
  then show ?thesis if "is_removed c h"
    using removed_get[OF that, of k]
    by (cases "get c k") (auto simp: GetProposal_def split: sum.splits)
next
  case (DoUpdate k b)
  then show ?thesis if "is_removed c h"
    using removed_get[OF that, of k] get_cases[of c k]
    by (cases "get c k")
       (auto simp: UpdateProposal_def is_removed_def update_conv' split: sum.splits)
next
  case (DoRemove k)
  then show ?thesis if "is_removed c h"
    using removed_get[OF that, of k] get_cases[of c k]
    by (cases "get c k")
       (auto simp: RemoveProposal_def is_removed_def update_conv' split: sum.splits)
qed

lemma removed_run: "is_removed c h \<Longrightarrow> is_removed (cache_run ops c) h"
  by (induction ops rule: rev_induct) (simp_all add: cache_run_def removed_step)

lemma Remove_ok_removed: "RemoveProposal c h = (None, c1) \<Longrightarrow> is_removed c1 h"
  by (cases "get c h")
     (auto simp: RemoveProposal_def is_removed_def update_conv' split: sum.splits if_splits)

text \<open>
  Claim C9. Once \<open>RemoveProposal(h)\<close> has returned nil, after any further calls \<open>ops\<close> of
  the same generation (\<open>GetProposal\<close>, \<open>UpdateProposal\<close>, \<open>RemoveProposal\<close>, on any hashes):
  \<open>UpdateProposal(h)\<close> returns its error, \<open>RemoveProposal(h)\<close> returns its error, and
  \<open>GetProposal(h)\<close> returns nil with no error.
\<close>

theorem removal_is_terminal:
  assumes "RemoveProposal c h = (None, c1)"
  shows "fst (UpdateProposal (cache_run ops c1) h b) = Some (UpdateOnRemoved h) \<and>
         fst (RemoveProposal (cache_run ops c1) h) = Some (RemoveOnRemoved h) \<and>
         fst (GetProposal (cache_run ops c1) h) = (None, None)"
proof -
  have "is_removed (cache_run ops c1) h"
    using assms by (intro removed_run Remove_ok_removed)
  then obtain propInfo where "get (cache_run ops c1) h = (Inr propInfo, cache_run ops c1)"
    and "pi_removed propInfo"
    using get_removed by blast
  then show ?thesis
    by (simp add: UpdateProposal_def RemoveProposal_def GetProposal_def)
qed

theorem removal_is_terminal_witness:
  "RemoveProposal (NewCache (\<lambda>h. Inr (Some 5) :: unit + nat option)) [7] =
     (None, snd (RemoveProposal (NewCache (\<lambda>h. Inr (Some 5) :: unit + nat option)) [7])) \<and>
   fst (UpdateProposal (cache_run [DoGet [7], DoUpdate [7] (Some 6), DoUpdate [8] (Some 9), DoRemove [7]]
          (snd (RemoveProposal (NewCache (\<lambda>h. Inr (Some 5) :: unit + nat option)) [7]))) [7] (Some 1))
     = Some (UpdateOnRemoved [7]) \<and>
   fst (RemoveProposal (cache_run [DoGet [7], DoUpdate [7] (Some 6), DoUpdate [8] (Some 9), DoRemove [7]]
          (snd (RemoveProposal (NewCache (\<lambda>h. Inr (Some 5) :: unit + nat option)) [7]))) [7])
     = Some (RemoveOnRemoved [7]) \<and>
   fst (GetProposal (cache_run [DoGet [7], DoUpdate [7] (Some 6), DoUpdate [8] (Some 9), DoRemove [7]]
          (snd (RemoveProposal (NewCache (\<lambda>h. Inr (Some 5) :: unit + nat option)) [7]))) [7])
     = (None, None)"
proof -
  let ?c = "NewCache (\<lambda>h. Inr (Some 5) :: unit + nat option)"
  have "fst (RemoveProposal ?c [7]) = None" by code_simp
  then have h: "RemoveProposal ?c [7] = (None, snd (RemoveProposal ?c [7]))"
    by (simp add: prod_eq_iff)
  from removal_is_terminal [OF h, of "[DoGet [7], DoUpdate [7] (Some 6), DoUpdate [8] (Some 9), DoRemove [7]]" "Some 1"] h
  show ?thesis by blast
qed

section \<open>Properties of the bond context\<close>

text \<open>
  When the account passes the checks and the three collaborators return no error,
  \<open>Execute\<close> returns nil, and the context holds the validator set \<open>AddPower\<close> returned for
  the account's public key and the amount, and the state \<open>UpdateAccount\<close> returned for the
  account \<open>SubtractFromBalance\<close> wrote.
\<close>

lemma Execute_generic:
  assumes "GetAccount env (ctx_State ctx) (in_Address (bond_Input t)) = Inr (Some account)"
    and "pk_CurveType (acc_PublicKey account) \<noteq> CurveTypeSecp256k1"
    and "hasBondPermission env (ctx_State ctx) account"
    and "in_Amount (bond_Input t) \<noteq> 0"
    and "\<not> acc_Balance account < in_Amount (bond_Input t)"
    and "SubtractFromBalance env account (in_Amount (bond_Input t)) = (None, account2)"
    and "AddPower env (ctx_ValidatorSet ctx) (acc_PublicKey account2) (uint (in_Amount (bond_Input t))) = (None, vs2)"
    and "UpdateAccount env (ctx_State ctx) account2 = (None, st2)"
  shows "Execute env ctx (PayloadBondTx t) =
           (None, ctx\<lparr>ctx_tx := Some t, ctx_ValidatorSet := vs2, ctx_State := st2\<rparr>)"
  using assms by (simp add: Execute_def Let_def)

text \<open>
  Claim C3, as amended in the kinds of the errors. For an input account that the state
  holds, when the amount is 0 or the balance is below the amount, \<open>Execute\<close> returns an
  error and the context after the call is the context before it but for the recorded
  transaction: the state (so the account and its balance) and the validator set are the
  ones before the call, and no collaborator that writes was called. The error is the one
  of the first check that fails, in the order of the source: "secp256k1 not supported",
  then "lacks bond permission", then "nothing to bond" for the amount 0 and "insufficient
  funds" for a balance below the amount. So the last two are the errors exactly for the
  accounts that pass the two earlier checks.
\<close>

theorem Execute_rejects:
  assumes "GetAccount env (ctx_State ctx) (in_Address (bond_Input t)) = Inr (Some account)"
    and "in_Amount (bond_Input t) = 0 \<or> acc_Balance account < in_Amount (bond_Input t)"
  shows "fst (Execute env ctx (PayloadBondTx t :: 'p Payload)) \<noteq> None \<and>
         snd (Execute env ctx (PayloadBondTx t)) = ctx\<lparr>ctx_tx := Some t\<rparr> \<and>
         ctx_State (snd (Execute env ctx (PayloadBondTx t))) = ctx_State ctx \<and>
         ctx_ValidatorSet (snd (Execute env ctx (PayloadBondTx t))) = ctx_ValidatorSet ctx \<and>
         (pk_CurveType (acc_PublicKey account) \<noteq> CurveTypeSecp256k1 \<and>
          hasBondPermission env (ctx_State ctx) account \<longrightarrow>
            fst (Execute env ctx (PayloadBondTx t)) =
              Some (if in_Amount (bond_Input t) = 0 then NothingToBond
                    else InsufficientFunds (acc_Address account) (acc_Balance account)
                           (in_Amount (bond_Input t)))) \<and>
         fst (Execute env ctx (PayloadBondTx t)) =
           Some (if pk_CurveType (acc_PublicKey account) = CurveTypeSecp256k1
                 then Secp256k1NotSupported
                 else if \<not> hasBondPermission env (ctx_State ctx) account
                 then LacksBondPermission (acc_Address account)
                 else if in_Amount (bond_Input t) = 0 then NothingToBond
                 else InsufficientFunds (acc_Address account) (acc_Balance account)
                        (in_Amount (bond_Input t)))"
  using assms by (auto simp: Execute_def Let_def)

text \<open>
  Claim C3 as it is written names the errors for every input account. For an account without
  the bond permission the error is "lacks bond permission", for the amount 0 and for a
  balance below the amount: the permission is checked first.
\<close>

theorem Execute_error_kind_counterexample:
  "fst (Execute (mem_env (\<lambda>st a. False))
         \<lparr>ctx_State = [[10] \<mapsto> \<lparr>acc_Address = [10],
                acc_PublicKey = \<lparr>pk_CurveType = CurveTypeEd25519, pk_Key = [7]\<rparr>,
                acc_Balance = 100, acc_other = ()\<rparr>],
           ctx_ValidatorSet = Map.empty, ctx_tx = None\<rparr>
         (PayloadBondTx \<lparr>bond_Input = \<lparr>in_Address = [10], in_Amount = 0, in_Sequence = 1\<rparr>\<rparr>
            :: unit Payload))
     = Some (LacksBondPermission [10]) \<and>
   fst (Execute (mem_env (\<lambda>st a. False))
         \<lparr>ctx_State = [[10] \<mapsto> \<lparr>acc_Address = [10],
                acc_PublicKey = \<lparr>pk_CurveType = CurveTypeEd25519, pk_Key = [7]\<rparr>,
                acc_Balance = 100, acc_other = ()\<rparr>],
           ctx_ValidatorSet = Map.empty, ctx_tx = None\<rparr>
         (PayloadBondTx \<lparr>bond_Input = \<lparr>in_Address = [10], in_Amount = 0, in_Sequence = 1\<rparr>\<rparr>
            :: unit Payload))
     \<noteq> Some NothingToBond \<and>
   fst (Execute (mem_env (\<lambda>st a. False))
         \<lparr>ctx_State = [[10] \<mapsto> \<lparr>acc_Address = [10],
                acc_PublicKey = \<lparr>pk_CurveType = CurveTypeEd25519, pk_Key = [7]\<rparr>,
                acc_Balance = 100, acc_other = ()\<rparr>],
           ctx_ValidatorSet = Map.empty, ctx_tx = None\<rparr>
         (PayloadBondTx \<lparr>bond_Input = \<lparr>in_Address = [10], in_Amount = 500, in_Sequence = 1\<rparr>\<rparr>
            :: unit Payload))
     = Some (LacksBondPermission [10]) \<and>
   fst (Execute (mem_env (\<lambda>st a. False))
         \<lparr>ctx_State = [[10] \<mapsto> \<lparr>acc_Address = [10],
                acc_PublicKey = \<lparr>pk_CurveType = CurveTypeEd25519, pk_Key = [7]\<rparr>,
                acc_Balance = 100, acc_other = ()\<rparr>],
           ctx_ValidatorSet = Map.empty, ctx_tx = None\<rparr>
         (PayloadBondTx \<lparr>bond_Input = \<lparr>in_Address = [10], in_Amount = 500, in_Sequence = 1\<rparr>\<rparr>
            :: unit Payload))
     \<noteq> Some (InsufficientFunds [10] 100 500)"
  by (simp add: Execute_def mem_env_def mem_GetAccount_def Let_def)

theorem Execute_rejects_witness:
  "fst (Execute (mem_env (\<lambda>st a. True))
         \<lparr>ctx_State = [[10] \<mapsto> \<lparr>acc_Address = [10],
                acc_PublicKey = \<lparr>pk_CurveType = CurveTypeEd25519, pk_Key = [7]\<rparr>,
                acc_Balance = 100, acc_other = ()\<rparr>],
           ctx_ValidatorSet = Map.empty, ctx_tx = None\<rparr>
         (PayloadBondTx \<lparr>bond_Input = \<lparr>in_Address = [10], in_Amount = 500, in_Sequence = 1\<rparr>\<rparr>
            :: unit Payload))
     = Some (InsufficientFunds [10] 100 500) \<and>
   ctx_State (snd (Execute (mem_env (\<lambda>st a. True))
         \<lparr>ctx_State = [[10] \<mapsto> \<lparr>acc_Address = [10],
                acc_PublicKey = \<lparr>pk_CurveType = CurveTypeEd25519, pk_Key = [7]\<rparr>,
                acc_Balance = 100, acc_other = ()\<rparr>],
           ctx_ValidatorSet = Map.empty, ctx_tx = None\<rparr>
         (PayloadBondTx \<lparr>bond_Input = \<lparr>in_Address = [10], in_Amount = 500, in_Sequence = 1\<rparr>\<rparr>
            :: unit Payload)))
     = [[10] \<mapsto> \<lparr>acc_Address = [10],
                acc_PublicKey = \<lparr>pk_CurveType = CurveTypeEd25519, pk_Key = [7]\<rparr>,
                acc_Balance = 100, acc_other = ()\<rparr>]"
proof -
  let ?account = "\<lparr>acc_Address = [10],
                acc_PublicKey = \<lparr>pk_CurveType = CurveTypeEd25519, pk_Key = [7]\<rparr>,
                acc_Balance = 100, acc_other = ()\<rparr>"
  let ?ctx = "\<lparr>ctx_State = [[10] \<mapsto> ?account], ctx_ValidatorSet = (Map.empty :: PublicKey \<rightharpoonup> int),
               ctx_tx = None\<rparr>"
  let ?t = "\<lparr>bond_Input = \<lparr>in_Address = [10], in_Amount = 500, in_Sequence = 1\<rparr>\<rparr>"
  have h1: "GetAccount (mem_env (\<lambda>st a. True)) (ctx_State ?ctx) (in_Address (bond_Input ?t))
              = Inr (Some ?account)"
    by (simp add: mem_env_def mem_GetAccount_def)
  have h2: "in_Amount (bond_Input ?t) = 0 \<or> acc_Balance ?account < in_Amount (bond_Input ?t)"
    by simp
  have h3: "pk_CurveType (acc_PublicKey ?account) \<noteq> CurveTypeSecp256k1 \<and>
            hasBondPermission (mem_env (\<lambda>st a. True)) (ctx_State ?ctx) ?account"
    by (simp add: mem_env_def)
  from Execute_rejects [where 'p = unit, OF h1 h2] h3 show ?thesis by auto
qed

text \<open>
  Claim C2. With the state and the validator set of the spec: for an account the state
  holds at the input's address, with an ed25519 public key, the bond permission and
  balance \<open>\<ge>\<close> amount \<open>> 0\<close>, \<open>Execute\<close> returns nil; the state after it holds, at the
  account's address, the account with the amount subtracted from its balance (and the
  subtraction does not wrap); the validator set after it holds, for the account's public
  key, the power it had before (0 if it had no entry) plus the amount; nothing else changed.
\<close>

theorem Execute_bonds:
  assumes "st (in_Address (bond_Input t)) = Some account"
    and "pk_CurveType (acc_PublicKey account) = CurveTypeEd25519"
    and "perm st account"
    and "0 < in_Amount (bond_Input t)"
    and "in_Amount (bond_Input t) \<le> acc_Balance account"
  shows "Execute (mem_env perm) \<lparr>ctx_State = st, ctx_ValidatorSet = vs, ctx_tx = old\<rparr>
           (PayloadBondTx t :: 'p Payload) =
           (None,
            \<lparr>ctx_State = st(acc_Address account \<mapsto>
                 account\<lparr>acc_Balance := acc_Balance account - in_Amount (bond_Input t)\<rparr>),
             ctx_ValidatorSet = vs(acc_PublicKey account \<mapsto>
                 mem_Power vs (acc_PublicKey account) + uint (in_Amount (bond_Input t))),
             ctx_tx = Some t\<rparr>) \<and>
         uint (acc_Balance account - in_Amount (bond_Input t)) =
           uint (acc_Balance account) - uint (in_Amount (bond_Input t))"
proof -
  let ?amount = "in_Amount (bond_Input t)"
  let ?account2 = "account\<lparr>acc_Balance := acc_Balance account - ?amount\<rparr>"
  let ?ctx = "\<lparr>ctx_State = st, ctx_ValidatorSet = vs, ctx_tx = old\<rparr>"
  have nz: "?amount \<noteq> 0" using assms(4) by auto
  have nl: "\<not> acc_Balance account < ?amount" using assms(5) by simp
  have g: "GetAccount (mem_env perm) (ctx_State ?ctx) (in_Address (bond_Input t)) = Inr (Some account)"
    using assms(1) by (simp add: mem_env_def mem_GetAccount_def)
  have c: "pk_CurveType (acc_PublicKey account) \<noteq> CurveTypeSecp256k1" using assms(2) by simp
  have p: "hasBondPermission (mem_env perm) (ctx_State ?ctx) account"
    using assms(3) by (simp add: mem_env_def)
  have s: "SubtractFromBalance (mem_env perm) account ?amount = (None, ?account2)"
    using nl by (simp add: mem_env_def mem_SubtractFromBalance_def)
  have a: "AddPower (mem_env perm) (ctx_ValidatorSet ?ctx) (acc_PublicKey ?account2) (uint ?amount)
             = (None, vs(acc_PublicKey account \<mapsto> mem_Power vs (acc_PublicKey account) + uint ?amount))"
    by (simp add: mem_env_def mem_AddPower_def)
  have u: "UpdateAccount (mem_env perm) (ctx_State ?ctx) ?account2 = (None, st(acc_Address account \<mapsto> ?account2))"
    by (simp add: mem_env_def mem_UpdateAccount_def)
  have "Execute (mem_env perm) ?ctx (PayloadBondTx t) =
          (None, ?ctx\<lparr>ctx_tx := Some t,
                      ctx_ValidatorSet := vs(acc_PublicKey account \<mapsto> mem_Power vs (acc_PublicKey account) + uint ?amount),
                      ctx_State := st(acc_Address account \<mapsto> ?account2)\<rparr>)"
    by (rule Execute_generic[OF g c p nz nl s a u])
  moreover have "uint (acc_Balance account - ?amount) = uint (acc_Balance account) - uint ?amount"
    using assms(5) by (simp add: uint_minus_simple_alt)
  ultimately show ?thesis by simp
qed

theorem Execute_bonds_witness:
  "fst (Execute (mem_env (\<lambda>st a. True))
         \<lparr>ctx_State = [[10] \<mapsto> \<lparr>acc_Address = [10],
                acc_PublicKey = \<lparr>pk_CurveType = CurveTypeEd25519, pk_Key = [7]\<rparr>,
                acc_Balance = 1000, acc_other = ()\<rparr>],
           ctx_ValidatorSet = Map.empty, ctx_tx = None\<rparr>
         (PayloadBondTx \<lparr>bond_Input = \<lparr>in_Address = [10], in_Amount = 400, in_Sequence = 1\<rparr>\<rparr>
            :: unit Payload))
     = None \<and>
   map_option acc_Balance (ctx_State (snd (Execute (mem_env (\<lambda>st a. True))
         \<lparr>ctx_State = [[10] \<mapsto> \<lparr>acc_Address = [10],
                acc_PublicKey = \<lparr>pk_CurveType = CurveTypeEd25519, pk_Key = [7]\<rparr>,
                acc_Balance = 1000, acc_other = ()\<rparr>],
           ctx_ValidatorSet = Map.empty, ctx_tx = None\<rparr>
         (PayloadBondTx \<lparr>bond_Input = \<lparr>in_Address = [10], in_Amount = 400, in_Sequence = 1\<rparr>\<rparr>
            :: unit Payload))) [10])
     = Some 600 \<and>
   mem_Power (ctx_ValidatorSet (snd (Execute (mem_env (\<lambda>st a. True))
         \<lparr>ctx_State = [[10] \<mapsto> \<lparr>acc_Address = [10],
                acc_PublicKey = \<lparr>pk_CurveType = CurveTypeEd25519, pk_Key = [7]\<rparr>,
                acc_Balance = 1000, acc_other = ()\<rparr>],
           ctx_ValidatorSet = Map.empty, ctx_tx = None\<rparr>
         (PayloadBondTx \<lparr>bond_Input = \<lparr>in_Address = [10], in_Amount = 400, in_Sequence = 1\<rparr>\<rparr>
            :: unit Payload))))
       \<lparr>pk_CurveType = CurveTypeEd25519, pk_Key = [7]\<rparr>
     = 400"
proof -
  let ?account = "\<lparr>acc_Address = [10],
                acc_PublicKey = \<lparr>pk_CurveType = CurveTypeEd25519, pk_Key = [7]\<rparr>,
                acc_Balance = 1000, acc_other = ()\<rparr>"
  let ?st = "[[10] \<mapsto> ?account]"
  let ?t = "\<lparr>bond_Input = \<lparr>in_Address = [10], in_Amount = 400, in_Sequence = 1\<rparr>\<rparr>"
  have h1: "?st (in_Address (bond_Input ?t)) = Some ?account" by simp
  have h2: "pk_CurveType (acc_PublicKey ?account) = CurveTypeEd25519" by simp
  have h3: "(\<lambda>st a. True) ?st ?account" by simp
  have h4: "0 < in_Amount (bond_Input ?t)" by simp
  have h5: "in_Amount (bond_Input ?t) \<le> acc_Balance ?account" by simp
  from Execute_bonds [where 'p = unit and st = ?st and t = ?t and account = ?account
      and perm = "\<lambda>st a. True" and vs = Map.empty and old = None, OF h1 h2 h3 h4 h5]
  show ?thesis by (simp add: mem_Power_def)
qed

section \<open>Properties of the transactor\<close>

lemma MaybeSign_presigned:
  "Signatories txEnv \<noteq> [] \<Longrightarrow> MaybeSignTxMempool tr txEnv w = (Inr UnlockNoop, txEnv, w)"
  by (simp add: MaybeSignTxMempool_def)

lemma fold_unlock_accounts:
  "fold call_unlock (map UnlockAccount as) w =
     w\<lparr>w_locked := fold removeAll as (w_locked w), w_unlocks := w_unlocks w @ as\<rparr>"
  by (induction as arbitrary: w) simp_all

lemma lock_inputs_ok:
  "lock_inputs tr ins w = (Inr (signers, unlockers), ins2, w1) \<Longrightarrow>
   unlockers = map UnlockAccount (map in_Address ins) \<and>
   w_unlocks w1 = w_unlocks w \<and> w_once w1 = w_once w \<and> w_mempool w1 = w_mempool w \<and>
   w_subs w1 = w_subs w \<and> map in_Address ins2 = map in_Address ins"
proof (induction ins arbitrary: w signers unlockers ins2 w1)
  case Nil
  then show ?case by simp
next
  case (Cons input inputs)
  from Cons.prems obtain sa w0 signers0 unlockers0 ins0 where
    l: "ssa_Lock tr (in_Address input) w = (Inr (sa, UnlockAccount (in_Address input)), w0)"
    and w0: "w0 = w\<lparr>w_locked := in_Address input # w_locked w\<rparr>"
    and r: "lock_inputs tr inputs w0 = (Inr (signers0, unlockers0), ins0, w1)"
    and u: "unlockers = UnlockAccount (in_Address input) # unlockers0"
    and i: "ins2 = input\<lparr>in_Sequence := sa_Sequence sa + 1\<rparr> # ins0"
    by (auto simp: ssa_Lock_def Let_def split: option.splits prod.splits sum.splits if_splits)
  from Cons.IH[OF r] u i w0 show ?case by simp
qed


lemma once_first:
  assumes "w_once w3 = fs @ [False]" and "once = length fs"
  shows "call_unlock (UnlockOnce once (UnlockDeferAll (map UnlockAccount as))) w3 =
           w3\<lparr>w_locked := fold removeAll (rev as) (w_locked w3),
               w_unlocks := w_unlocks w3 @ rev as, w_once := fs @ [True]\<rparr>"
proof -
  have "\<not> (once < length (w_once w3) \<and> w_once w3 ! once)" using assms by simp
  moreover have "fold call_unlock (rev (map UnlockAccount as)) w3 =
      w3\<lparr>w_locked := fold removeAll (rev as) (w_locked w3), w_unlocks := w_unlocks w3 @ rev as\<rparr>"
    using fold_unlock_accounts[of "rev as" w3] by (simp add: rev_map)
  ultimately show ?thesis using assms by (simp add: Let_def)
qed

lemma once_again:
  assumes "w_once w3 = fs @ [True]" and "once = length fs"
  shows "call_unlock (UnlockOnce once unlock) w3 = w3"
  using assms by simp

lemma MaybeSign_signs:
  assumes "Signatories txEnv = []"
    and "MaybeSignTxMempool tr txEnv w = (Inr unlock, txEnv1, w1)"
  shows "unlock = UnlockOnce (length (w_once w))
                    (UnlockDeferAll (map UnlockAccount (map in_Address (tx_Inputs (Tx txEnv))))) \<and>
         w_once w1 = w_once w @ [False] \<and> w_unlocks w1 = w_unlocks w \<and>
         w_mempool w1 = w_mempool w \<and> w_subs w1 = w_subs w"
proof -
  from assms obtain u0 e0 w0 where
    s: "SignTxMempool tr txEnv w = (Inr u0, e0, w0)"
    and u: "unlock = UnlockOnce (length (w_once w0)) u0"
    and w1: "w1 = w0\<lparr>w_once := w_once w0 @ [False]\<rparr>"
    by (auto simp: MaybeSignTxMempool_def Let_def split: prod.splits sum.splits)
  from s obtain signers unlockers ins2 where
    l: "lock_inputs tr (tx_Inputs (Tx txEnv)) w = (Inr (signers, unlockers), ins2, w0)"
    and u0: "u0 = UnlockDeferAll unlockers"
    by (auto simp: SignTxMempool_def Let_def split: prod.splits sum.splits)
  from lock_inputs_ok[OF l] u u0 w1 show ?thesis by simp
qed

lemma CheckTxSyncRaw_world:
  "snd (CheckTxSyncRaw tr ev txBytes w) = w\<lparr>w_mempool := w_mempool w @ [txBytes]\<rparr>"
  by (simp add: CheckTxSyncRaw_def Let_def split: raw_event.splits option.splits sum.splits)

lemma CheckTxSync_presigned:
  assumes "Signatories txEnv \<noteq> []"
  shows "\<exists>res mp. CheckTxSync tr ev txEnv w = (res, txEnv, w\<lparr>w_mempool := mp\<rparr>) \<and>
           (case (tr_Validate tr txEnv, tr_EncodeTx tr txEnv) of
              (None, Inr txBytes) \<Rightarrow> mp = w_mempool w @ [txBytes]
            | _ \<Rightarrow> mp = w_mempool w)"
proof (cases "tr_Validate tr txEnv")
  case (Some err)
  then show ?thesis
    using assms by (simp add: CheckTxSync_def MaybeSign_presigned)
next
  case None
  show ?thesis
  proof (cases "tr_EncodeTx tr txEnv")
    case (Inl err)
    then show ?thesis
      using assms None by (simp add: CheckTxSync_def MaybeSign_presigned)
  next
    case (Inr txBytes)
    obtain res where "CheckTxSyncRaw tr ev txBytes w =
            (res, w\<lparr>w_mempool := w_mempool w @ [txBytes]\<rparr>)"
      using CheckTxSyncRaw_world[of tr ev txBytes w] by (cases "CheckTxSyncRaw tr ev txBytes w") simp
    then show ?thesis
      using assms None Inr by (simp add: CheckTxSync_def MaybeSign_presigned)
  qed
qed

text \<open>
  Claim C10. For an envelope that carries a signatory, \<open>MaybeSignTxMempool\<close> returns the
  empty unlock with no error, the envelope as it was (signatories, sequences and stored
  hash) and the world as it was (no lock taken); calling the unlock changes nothing. And
  \<open>BroadcastTxSync\<close> on it leaves the envelope, the locks, the record of unlocks and the
  once flags as they were, and hands to the mempool the encoding of the envelope as
  provided: exactly when \<open>Subscribe\<close>, \<open>Validate\<close> and the encoder return no error, and
  nothing otherwise.
\<close>

theorem MaybeSignTxMempool_presigned:
  assumes "Signatories txEnv \<noteq> []"
  shows "MaybeSignTxMempool tr txEnv w = (Inr UnlockNoop, txEnv, w) \<and>
         call_unlock UnlockNoop w = w \<and>
         fst (snd (BroadcastTxSync tr oc txEnv w)) = txEnv \<and>
         w_locked (snd (snd (BroadcastTxSync tr oc txEnv w))) = w_locked w \<and>
         w_unlocks (snd (snd (BroadcastTxSync tr oc txEnv w))) = w_unlocks w \<and>
         w_once (snd (snd (BroadcastTxSync tr oc txEnv w))) = w_once w \<and>
         w_mempool (snd (snd (BroadcastTxSync tr oc txEnv w))) =
           (case (oc_subscribe oc, tr_Validate tr txEnv, tr_EncodeTx tr txEnv) of
              (None, None, Inr txBytes) \<Rightarrow> w_mempool w @ [txBytes]
            | _ \<Rightarrow> w_mempool w)"
proof -
  note m = MaybeSign_presigned[OF assms]
  show ?thesis
  proof (cases "oc_subscribe oc")
    case (Some err)
    then show ?thesis by (simp add: m BroadcastTxSync_def Let_def)
  next
    case None
    let ?w2 = "w\<lparr>w_subs := oc_subID oc # w_subs w\<rparr>"
    obtain res mp where c: "CheckTxSync tr (oc_checkTx oc) txEnv ?w2 = (res, txEnv, ?w2\<lparr>w_mempool := mp\<rparr>)"
      and mp: "(case (tr_Validate tr txEnv, tr_EncodeTx tr txEnv) of
              (None, Inr txBytes) \<Rightarrow> mp = w_mempool ?w2 @ [txBytes]
            | _ \<Rightarrow> mp = w_mempool ?w2)"
      using CheckTxSync_presigned[OF assms, of tr "oc_checkTx oc" ?w2] by blast
    have mp': "mp = (case (oc_subscribe oc, tr_Validate tr txEnv, tr_EncodeTx tr txEnv) of
              (None, None, Inr txBytes) \<Rightarrow> w_mempool w @ [txBytes]
            | _ \<Rightarrow> w_mempool w)"
      using mp None by (auto split: option.splits sum.splits)
    show ?thesis
      using None c mp'
      by (auto simp: m BroadcastTxSync_def Let_def split: sum.splits select_event.splits)
  qed
qed

theorem MaybeSignTxMempool_presigned_witness:
  "Signatories signed0 \<noteq> [] \<and>
   MaybeSignTxMempool tr0 signed0 world0 = (Inr UnlockNoop, signed0, world0) \<and>
   fst (snd (BroadcastTxSync tr0 (committed 17) signed0 world0)) = signed0 \<and>
   w_locked (snd (snd (BroadcastTxSync tr0 (committed 17) signed0 world0))) = [] \<and>
   w_unlocks (snd (snd (BroadcastTxSync tr0 (committed 17) signed0 world0))) = [] \<and>
   w_mempool (snd (snd (BroadcastTxSync tr0 (committed 17) signed0 world0))) = [Tx signed0]"
proof -
  have h: "Signatories signed0 \<noteq> []" by (simp add: signed0_def)
  have s: "oc_subscribe (committed 17) = None" by (simp add: committed_def)
  have v: "tr_Validate tr0 signed0 = None" by (simp add: tr0_def)
  have e: "tr_EncodeTx tr0 signed0 = Inr (Tx signed0)" by (simp add: tr0_def)
  have w: "w_locked world0 = []" "w_unlocks world0 = []" "w_mempool world0 = []"
    by (simp_all add: world0_def)
  from MaybeSignTxMempool_presigned [OF h, of tr0 world0 "committed 17"] h
  show ?thesis by (simp add: s v e w)
qed

text \<open>
  Claim C7. When \<open>BroadcastTxSync\<close> has signed or found the envelope signed, has
  subscribed, has a receipt from \<open>CheckTxSync\<close>, and the committed \<open>TxExecution\<close> arrives
  on the subscription: it returns the error that wraps the call error if the \<open>TxExecution\<close>
  has an exception whose code is not \<open>ExecutionReverted\<close>, and else (no exception, or a
  revert) the \<open>TxExecution\<close> as it arrived, exception included.
\<close>

theorem BroadcastTxSync_on_commit:
  assumes "MaybeSignTxMempool tr txEnv w = (Inr unlock, txEnv1, w1)"
    and "oc_subscribe oc = None"
    and "CheckTxSync tr (oc_checkTx oc) txEnv1 (w1\<lparr>w_subs := oc_subID oc # w_subs w1\<rparr>)
           = (Inr checkTxReceipt, txEnv2, w3)"
    and "oc_select oc = SelMsg txe"
  shows "fst (BroadcastTxSync tr oc txEnv w) =
           (case txe_Exception txe of
              None \<Rightarrow> Inr txe
            | Some ex \<Rightarrow>
                if ex_Code ex \<noteq> tr_ExecutionReverted tr
                then Inl (ExceptionDuringExecution ex) else Inr txe)"
  using assms
  by (simp add: BroadcastTxSync_def Let_def on_msg_def CallError_def ErrorCode_def
           split: option.splits)

theorem BroadcastTxSync_on_commit_witness:
  "fst (BroadcastTxSync tr0 (committed 17) signed0 world0) =
     Inr \<lparr>txe_Exception = Some \<lparr>ex_Code = 17, ex_Exception = ''exception''\<rparr>, txe_rest = ()\<rparr> \<and>
   fst (BroadcastTxSync tr0 (committed 5) signed0 world0) =
     Inl (ExceptionDuringExecution \<lparr>ex_Code = 5, ex_Exception = ''exception''\<rparr>)"
proof -
  have h1: "MaybeSignTxMempool tr0 signed0 world0 = (Inr UnlockNoop, signed0, world0)"
    by code_simp
  have h2: "oc_subscribe (committed code) = None" for code
    by (simp add: committed_def)
  have h3: "CheckTxSync tr0 (oc_checkTx (committed code)) signed0
              (world0\<lparr>w_subs := oc_subID (committed code) # w_subs world0\<rparr>) =
            (Inr [5], signed0, world0\<lparr>w_subs := [1], w_mempool := [Tx signed0]\<rparr>)" for code
    unfolding committed_def by code_simp
  have h4: "oc_select (committed code) =
      SelMsg \<lparr>txe_Exception = Some \<lparr>ex_Code = code, ex_Exception = ''exception''\<rparr>, txe_rest = ()\<rparr>" for code
    by (simp add: committed_def)
  have r: "tr_ExecutionReverted tr0 = 17" by (simp add: tr0_def)
  from BroadcastTxSync_on_commit [OF h1 h2 h3 h4, of 17] BroadcastTxSync_on_commit [OF h1 h2 h3 h4, of 5]
  show ?thesis by (simp add: r)
qed

text \<open>
  Claim C8. When \<open>MaybeSignTxMempool\<close> signs (the envelope has no signatory) and returns
  \<open>unlock\<close>: the first call of \<open>unlock\<close> invokes the unlock of each input's signing account
  once (the record of unlocks grows by the inputs' addresses, last input first); a second
  call leaves the world of the first as it is; and in \<open>BroadcastTxSync\<close>, whose eager and
  deferred calls both run when the signed envelope carries a signatory, the record of
  unlocks at the return has grown by exactly these addresses, once each, on every path.
\<close>

theorem unlock_idempotent:
  fixes w :: "'b World"
  assumes "Signatories txEnv = []"
    and "MaybeSignTxMempool tr txEnv w = (Inr unlock, txEnv1, w1)"
  shows "w_unlocks (call_unlock unlock w1) =
           w_unlocks w @ rev (map in_Address (tx_Inputs (Tx txEnv))) \<and>
         call_unlock unlock (call_unlock unlock w1) = call_unlock unlock w1 \<and>
         (Signatories txEnv1 \<noteq> [] \<longrightarrow>
            w_unlocks (snd (snd (BroadcastTxSync tr oc txEnv w))) =
              w_unlocks w @ rev (map in_Address (tx_Inputs (Tx txEnv))))"
proof -
  let ?as = "map in_Address (tx_Inputs (Tx txEnv))"
  let ?once = "length (w_once w)"
  from MaybeSign_signs[OF assms] have
    u: "unlock = UnlockOnce ?once (UnlockDeferAll (map UnlockAccount ?as))"
    and o1: "w_once w1 = w_once w @ [False]" and l1: "w_unlocks w1 = w_unlocks w"
    by simp_all
  have first: "call_unlock unlock w3 =
           w3\<lparr>w_locked := fold removeAll (rev ?as) (w_locked w3),
               w_unlocks := w_unlocks w3 @ rev ?as, w_once := w_once w @ [True]\<rparr>"
    if "w_once w3 = w_once w @ [False]" for w3 :: "'b World"
    unfolding u by (rule once_first[OF that refl])
  have again: "call_unlock unlock w3 = w3"
    if "w_once w3 = w_once w @ [True]" for w3 :: "'b World"
    unfolding u by (rule once_again[OF that refl])
  have a: "w_unlocks (call_unlock unlock w1) = w_unlocks w @ rev ?as"
    by (simp add: first[OF o1] l1)
  have b: "call_unlock unlock (call_unlock unlock w1) = call_unlock unlock w1"
    by (rule again) (simp add: first[OF o1])
  have c: "w_unlocks (snd (snd (BroadcastTxSync tr oc txEnv w))) = w_unlocks w @ rev ?as"
    if signed: "Signatories txEnv1 \<noteq> []"
  proof (cases "oc_subscribe oc")
    case (Some err)
    then show ?thesis using assms(2) a by (simp add: BroadcastTxSync_def Let_def)
  next
    case None
    let ?w2 = "w1\<lparr>w_subs := oc_subID oc # w_subs w1\<rparr>"
    obtain res mp where ch: "CheckTxSync tr (oc_checkTx oc) txEnv1 ?w2 = (res, txEnv1, ?w2\<lparr>w_mempool := mp\<rparr>)"
      using CheckTxSync_presigned[OF signed, of tr "oc_checkTx oc" ?w2] by blast
    let ?w3 = "?w2\<lparr>w_mempool := mp\<rparr>"
    have o3: "w_once ?w3 = w_once w @ [False]" using o1 by simp
    let ?w4 = "call_unlock unlock ?w3"
    have w4: "?w4 = ?w3\<lparr>w_locked := fold removeAll (rev ?as) (w_locked ?w3),
               w_unlocks := w_unlocks ?w3 @ rev ?as, w_once := w_once w @ [True]\<rparr>"
      by (rule first[OF o3])
    let ?w5 = "?w4\<lparr>w_subs := removeAll (oc_subID oc) (w_subs ?w4)\<rparr>"
    have w5: "call_unlock unlock ?w5 = ?w5"
      by (rule again) (simp add: w4)
    have "w_unlocks ?w5 = w_unlocks w @ rev ?as" by (simp add: w4 l1)
    then have "w_unlocks (call_unlock unlock ?w5) = w_unlocks w @ rev ?as" by (simp only: w5)
    then show ?thesis
      using None assms(2) ch
      by (simp add: BroadcastTxSync_def Let_def split: sum.splits select_event.splits)
  qed
  from a b c show ?thesis by blast
qed

theorem unlock_idempotent_witness:
  "Signatories unsigned0 = [] \<and>
   w_unlocks (call_unlock (UnlockOnce 0 (UnlockDeferAll [UnlockAccount [1], UnlockAccount [2]]))
     \<lparr>w_locked = [[2], [1]], w_unlocks = [], w_once = [False], w_mempool = [] :: unit Tx list,
       w_subs = []\<rparr>) = [[2], [1]] \<and>
   call_unlock (UnlockOnce 0 (UnlockDeferAll [UnlockAccount [1], UnlockAccount [2]]))
     (call_unlock (UnlockOnce 0 (UnlockDeferAll [UnlockAccount [1], UnlockAccount [2]]))
        \<lparr>w_locked = [[2], [1]], w_unlocks = [], w_once = [False], w_mempool = [] :: unit Tx list,
          w_subs = []\<rparr>) =
   call_unlock (UnlockOnce 0 (UnlockDeferAll [UnlockAccount [1], UnlockAccount [2]]))
     \<lparr>w_locked = [[2], [1]], w_unlocks = [], w_once = [False], w_mempool = [] :: unit Tx list,
       w_subs = []\<rparr> \<and>
   w_unlocks (snd (snd (BroadcastTxSync tr0 (committed 17) unsigned0 world0))) = [[2], [1]]"
proof -
  let ?unlock = "UnlockOnce 0 (UnlockDeferAll [UnlockAccount [1], UnlockAccount [2]])"
  let ?txEnv1 = "\<lparr>Signatories = [[1], [2]],
     Tx = \<lparr>tx_Inputs = [\<lparr>in_Address = [1], in_Amount = 0, in_Sequence = 8\<rparr>,
                         \<lparr>in_Address = [2], in_Amount = 0, in_Sequence = 8\<rparr>],
           tx_txHash = [1, 2], tx_rest = ()\<rparr>\<rparr>"
  let ?w1 = "\<lparr>w_locked = [[2], [1]], w_unlocks = [], w_once = [False],
             w_mempool = [] :: unit Tx list, w_subs = []\<rparr>"
  have h1: "Signatories unsigned0 = []" by (simp add: unsigned0_def)
  have h2: "MaybeSignTxMempool tr0 unsigned0 world0 = (Inr ?unlock, ?txEnv1, ?w1)"
    by code_simp
  have i: "rev (map in_Address (tx_Inputs (Tx unsigned0))) = [[2], [1]]"
    by (simp add: unsigned0_def)
  have e: "w_unlocks world0 = []" by (simp add: world0_def)
  from unlock_idempotent [OF h1 h2, of "committed 17"] h1 show ?thesis
    by (simp add: i e)
qed

end
